theory Spec2Isabelle
  imports Complex_Main "HOL-Library.Multiset"
begin

section \<open>Data model (types of the front end)\<close>

text \<open>
  The \<^verbatim>\<open>AgentNode\<close> interface. The \<^verbatim>\<open>type\<close> and \<^verbatim>\<open>status\<close> unions are closed
  datatypes, the optional \<^verbatim>\<open>parent_id\<close> and \<^verbatim>\<open>completed_at\<close> are options, the
  payload \<^verbatim>\<open>data\<close> is an opaque key-value bag of JSON values in key order, with
  distinct keys as in a parsed object.
  JavaScript numbers are modelled as reals: the layout only adds and multiplies
  small integers and halves the canvas height.
\<close>

datatype node_type = data_fetch | analysis | decision | inference | validation | spawn

datatype node_status = pending | in_progress | completed | error

datatype jvalue =
    JNull
  | JBool bool
  | JNum real
  | JStr string
  | JArr "jvalue list"
  | JObj "(string \<times> jvalue) list"

record AgentNode =
  node_id :: string
  node_type :: node_type
  label :: string
  description :: string
  status :: node_status
  data :: "(string \<times> jvalue) list"
  parent_id :: "string option"
  children_ids :: "string list"
  created_at :: string
  completed_at :: "string option"

text \<open>\<^verbatim>\<open>String.prototype.includes\<close>: the argument occurs as a contiguous substring.\<close>

fun startsWith :: "string \<Rightarrow> string \<Rightarrow> bool" where
  "startsWith s [] = True"
| "startsWith [] (c # cs) = False"
| "startsWith (a # as) (c # cs) = (a = c \<and> startsWith as cs)"

fun str_includes :: "string \<Rightarrow> string \<Rightarrow> bool" where
  "str_includes [] sub = (sub = [])"
| "str_includes (a # as) sub = (startsWith (a # as) sub \<or> str_includes as sub)"

text \<open>JavaScript truthiness of an optional string (\<^verbatim>\<open>if (node.parent_id)\<close>):
  undefined and the empty string are falsy.\<close>

definition truthy_str :: "string option \<Rightarrow> bool" where
  "truthy_str s = (case s of None \<Rightarrow> False | Some v \<Rightarrow> v \<noteq> [])"

text \<open>\<^verbatim>\<open>Array.prototype.find\<close> is \<^const>\<open>List.find\<close>; \<^verbatim>\<open>forEach\<close> with an index runs
  over \<^const>\<open>List.enumerate\<close> from 0, threading the mutated variables.\<close>

definition forEachIdx :: "('s \<Rightarrow> 'a \<Rightarrow> nat \<Rightarrow> 's) \<Rightarrow> 'a list \<Rightarrow> 's \<Rightarrow> 's" where
  "forEachIdx f xs s = foldl (\<lambda>acc ix. f acc (snd ix) (fst ix)) s (enumerate 0 xs)"

section \<open>NodeVisualizationBranched: lane grouping and layout\<close>

record position =
  pnode :: AgentNode
  pos_x :: real
  pos_y :: real
  level :: nat
  branch :: nat

record dimensions =
  width :: real
  height :: real

definition levelSpacing :: nat where "levelSpacing = 320"
definition branchSpacing :: nat where "branchSpacing = 140"

text \<open>
  The \<^verbatim>\<open>if / else if\<close> chain of \<^verbatim>\<open>nodes.forEach\<close> that pushes a node into one of
  the six arrays. The chain has no final \<^verbatim>\<open>else\<close>: \<open>None\<close> is the node that is
  pushed nowhere.
\<close>

datatype lane = mainFlow | newsBranch | financialBranch | marketBranch
  | validationNodes | finalNodes

definition classify :: "AgentNode \<Rightarrow> lane option" where
  "classify n =
    (if str_includes (label n) ''Price Data'' \<or> str_includes (label n) ''Agent Decision''
       then Some mainFlow
     else if str_includes (label n) ''News'' \<or> str_includes (label n) ''Headlines''
       then Some newsBranch
     else if str_includes (label n) ''Earnings'' \<or> str_includes (label n) ''Financial''
       then Some financialBranch
     else if str_includes (label n) ''Market'' \<or> str_includes (label n) ''Sector''
       then Some marketBranch
     else if node_type n = validation
       then Some validationNodes
     else if str_includes (label n) ''Master'' \<or> str_includes (label n) ''Final Analysis''
       then Some finalNodes
     else None)"

definition laneNodes :: "lane \<Rightarrow> AgentNode list \<Rightarrow> AgentNode list" where
  "laneNodes l ns = filter (\<lambda>n. classify n = Some l) ns"

text \<open>The loop bodies: each pushes one object literal (the \<open>Entry\<close> functions). The
  state of the first loop is the pair \<open>(positions, currentLevel)\<close>; the later loops
  only push.\<close>

definition mainEntry :: "dimensions \<Rightarrow> AgentNode \<Rightarrow> nat \<Rightarrow> position" where
  "mainEntry dims n index =
     \<lparr>pnode = n,
      pos_x = 100 + real (index * levelSpacing),
      pos_y = height dims / 2,
      level = index,
      branch = 0\<rparr>"

definition placeMain :: "dimensions \<Rightarrow> position list \<times> nat \<Rightarrow> AgentNode \<Rightarrow> nat
    \<Rightarrow> position list \<times> nat" where
  "placeMain dims acc n index =
     (fst acc @ [mainEntry dims n index], max (snd acc) (index + 1))"

record branch_spec =
  bnodes :: "AgentNode list"
  yOffset :: real
  bname :: string

definition branchEntry :: "dimensions \<Rightarrow> nat \<Rightarrow> branch_spec \<Rightarrow> nat \<Rightarrow> AgentNode \<Rightarrow> nat
    \<Rightarrow> position" where
  "branchEntry dims currentLevel b branchIndex n nodeIndex =
     \<lparr>pnode = n,
      pos_x = 100 + real ((currentLevel + nodeIndex) * levelSpacing),
      pos_y = height dims / 2 + yOffset b + real (nodeIndex * 40),
      level = currentLevel + nodeIndex,
      branch = branchIndex + 1\<rparr>"

definition placeBranchNode :: "dimensions \<Rightarrow> nat \<Rightarrow> branch_spec \<Rightarrow> nat
    \<Rightarrow> position list \<Rightarrow> AgentNode \<Rightarrow> nat \<Rightarrow> position list" where
  "placeBranchNode dims currentLevel b branchIndex positions n nodeIndex =
     positions @ [branchEntry dims currentLevel b branchIndex n nodeIndex]"

definition placeBranch :: "dimensions \<Rightarrow> nat \<Rightarrow> position list \<Rightarrow> branch_spec \<Rightarrow> nat
    \<Rightarrow> position list" where
  "placeBranch dims currentLevel positions b branchIndex =
     forEachIdx (placeBranchNode dims currentLevel b branchIndex) (bnodes b) positions"

definition validationEntry :: "dimensions \<Rightarrow> nat \<Rightarrow> AgentNode \<Rightarrow> nat \<Rightarrow> position" where
  "validationEntry dims validationLevel n index =
     \<lparr>pnode = n,
      pos_x = 100 + real (validationLevel * levelSpacing),
      pos_y = height dims / 2 + real (index * branchSpacing),
      level = validationLevel,
      branch = 0\<rparr>"

definition placeValidation :: "dimensions \<Rightarrow> nat \<Rightarrow> position list \<Rightarrow> AgentNode \<Rightarrow> nat
    \<Rightarrow> position list" where
  "placeValidation dims validationLevel positions n index =
     positions @ [validationEntry dims validationLevel n index]"

definition finalEntry :: "dimensions \<Rightarrow> nat \<Rightarrow> AgentNode \<Rightarrow> nat \<Rightarrow> position" where
  "finalEntry dims validationLevel n index =
     \<lparr>pnode = n,
      pos_x = 100 + real ((validationLevel + 1) * levelSpacing),
      pos_y = height dims / 2,
      level = validationLevel + 1,
      branch = 0\<rparr>"

definition placeFinal :: "dimensions \<Rightarrow> nat \<Rightarrow> position list \<Rightarrow> AgentNode \<Rightarrow> nat
    \<Rightarrow> position list" where
  "placeFinal dims validationLevel positions n index =
     positions @ [finalEntry dims validationLevel n index]"

definition branches :: "AgentNode list \<Rightarrow> branch_spec list" where
  "branches ns =
     [\<lparr>bnodes = laneNodes newsBranch ns, yOffset = - 200, bname = ''news''\<rparr>,
      \<lparr>bnodes = laneNodes financialBranch ns, yOffset = 0, bname = ''financial''\<rparr>,
      \<lparr>bnodes = laneNodes marketBranch ns, yOffset = 200, bname = ''market''\<rparr>]"

text \<open>\<^verbatim>\<open>currentLevel\<close> after the main-flow loop, and
  \<^verbatim>\<open>currentLevel + Math.max(2, ...branches.map(b => b.nodes.length))\<close>.\<close>

definition currentLevelOf :: "dimensions \<Rightarrow> AgentNode list \<Rightarrow> nat" where
  "currentLevelOf dims ns = snd (forEachIdx (placeMain dims) (laneNodes mainFlow ns) ([], 0))"

definition validationLevelOf :: "dimensions \<Rightarrow> AgentNode list \<Rightarrow> nat" where
  "validationLevelOf dims ns =
     currentLevelOf dims ns + fold max (map (\<lambda>b. length (bnodes b)) (branches ns)) 2"

definition calculateNodePositions :: "dimensions \<Rightarrow> AgentNode list \<Rightarrow> position list" where
  "calculateNodePositions dims ns =
     (if length ns = 0 then []
      else
        let (positions, currentLevel) =
              forEachIdx (placeMain dims) (laneNodes mainFlow ns) ([], 0);
            positions = forEachIdx (placeBranch dims currentLevel) (branches ns) positions;
            validationLevel =
              currentLevel + fold max (map (\<lambda>b. length (bnodes b)) (branches ns)) 2;
            positions =
              forEachIdx (placeValidation dims validationLevel) (laneNodes validationNodes ns)
                positions;
            positions =
              forEachIdx (placeFinal dims validationLevel) (laneNodes finalNodes ns) positions
        in positions)"

text \<open>Edge resolution over the computed positions (\<^verbatim>\<open>getConnections\<close>).\<close>

record point =
  ptx :: real
  pty :: real

record connection =
  cfrom :: point
  cto :: point
  ctype :: string

definition findPosition :: "string \<Rightarrow> position list \<Rightarrow> position option" where
  "findPosition i nodePositions = find (\<lambda>p. node_id (pnode p) = i) nodePositions"

definition connectChild :: "position list \<Rightarrow> position \<Rightarrow> connection list \<Rightarrow> string
    \<Rightarrow> connection list" where
  "connectChild nodePositions nodePos connections childId =
     (case findPosition childId nodePositions of
        None \<Rightarrow> connections
      | Some childPos \<Rightarrow>
          connections @ [\<lparr>cfrom = \<lparr>ptx = pos_x nodePos, pty = pos_y nodePos\<rparr>,
                           cto = \<lparr>ptx = pos_x childPos, pty = pos_y childPos\<rparr>,
                           ctype = ''validation''\<rparr>])"

definition connectParent :: "position list \<Rightarrow> position \<Rightarrow> connection list
    \<Rightarrow> connection list" where
  "connectParent nodePositions nodePos connections =
     (case parent_id (pnode nodePos) of
        None \<Rightarrow> connections
      | Some pid \<Rightarrow>
          if pid = [] then connections
          else (case findPosition pid nodePositions of
                  None \<Rightarrow> connections
                | Some parentPos \<Rightarrow>
                    connections @ [\<lparr>cfrom = \<lparr>ptx = pos_x parentPos, pty = pos_y parentPos\<rparr>,
                                     cto = \<lparr>ptx = pos_x nodePos, pty = pos_y nodePos\<rparr>,
                                     ctype = ''parent''\<rparr>]))"

definition connectNode :: "position list \<Rightarrow> connection list \<Rightarrow> position
    \<Rightarrow> connection list" where
  "connectNode nodePositions connections nodePos =
     (let connections = connectParent nodePositions nodePos connections
      in if length (children_ids (pnode nodePos)) > 0
         then foldl (connectChild nodePositions nodePos) connections
                (children_ids (pnode nodePos))
         else connections)"

definition getConnections :: "position list \<Rightarrow> connection list" where
  "getConnections nodePositions = foldl (connectNode nodePositions) [] nodePositions"

section \<open>NodeVisualizationBranched: pan and zoom\<close>

record view_state =
  scale :: real
  translateX :: real
  translateY :: real

record mouse_event =
  clientX :: real
  clientY :: real

record wheel_event = mouse_event +
  deltaY :: real

record view_component =
  viewState :: view_state
  isDragging :: bool
  dragStart :: point

definition initialView :: view_component where
  "initialView =
     \<lparr>viewState = \<lparr>scale = 1, translateX = 0, translateY = 0\<rparr>,
      isDragging = False,
      dragStart = \<lparr>ptx = 0, pty = 0\<rparr>\<rparr>"

definition handleMouseDown :: "view_component \<Rightarrow> mouse_event \<Rightarrow> view_component" where
  "handleMouseDown c e =
     c\<lparr>isDragging := True,
       dragStart := \<lparr>ptx = clientX e - translateX (viewState c),
                     pty = clientY e - translateY (viewState c)\<rparr>\<rparr>"

definition handleMouseMove :: "view_component \<Rightarrow> mouse_event \<Rightarrow> view_component" where
  "handleMouseMove c e =
     (if \<not> isDragging c then c
      else c\<lparr>viewState := (viewState c)\<lparr>translateX := clientX e - ptx (dragStart c),
                                         translateY := clientY e - pty (dragStart c)\<rparr>\<rparr>)"

definition handleMouseUp :: "view_component \<Rightarrow> view_component" where
  "handleMouseUp c = c\<lparr>isDragging := False\<rparr>"

definition handleWheel :: "view_component \<Rightarrow> wheel_event \<Rightarrow> view_component" where
  "handleWheel c e =
     (let scaleChange = (if deltaY e > 0 then 0.9 else 1.1);
          newScale = max 0.1 (min 3 (scale (viewState c) * scaleChange))
      in c\<lparr>viewState := (viewState c)\<lparr>scale := newScale\<rparr>\<rparr>)"

definition resetView :: "view_component \<Rightarrow> view_component" where
  "resetView c = c\<lparr>viewState := \<lparr>scale = 1, translateX = 0, translateY = 0\<rparr>\<rparr>"

definition zoomIn :: "view_component \<Rightarrow> view_component" where
  "zoomIn c = c\<lparr>viewState := (viewState c)\<lparr>scale := min 3 (scale (viewState c) * 1.2)\<rparr>\<rparr>"

definition zoomOut :: "view_component \<Rightarrow> view_component" where
  "zoomOut c = c\<lparr>viewState := (viewState c)\<lparr>scale := max 0.1 (scale (viewState c) * 0.8)\<rparr>\<rparr>"

text \<open>The canvas laneNodes is drawn under
  \<^verbatim>\<open>translate(translateX,translateY) scale(scale)\<close>: where a canvas point lands.\<close>

definition applyTransform :: "view_state \<Rightarrow> point \<Rightarrow> point" where
  "applyTransform v p =
     \<lparr>ptx = translateX v + scale v * ptx p, pty = translateY v + scale v * pty p\<rparr>"

text \<open>The handlers the component registers, as one event type; a run of the component
  is a list of events handled one after the other from the initial hooks.\<close>

datatype view_event =
    MouseDown mouse_event
  | MouseMove mouse_event
  | MouseUp
  | Wheel wheel_event
  | ZoomIn
  | ZoomOut
  | ResetView

fun viewStep :: "view_component \<Rightarrow> view_event \<Rightarrow> view_component" where
  "viewStep c (MouseDown e) = handleMouseDown c e"
| "viewStep c (MouseMove e) = handleMouseMove c e"
| "viewStep c MouseUp = handleMouseUp c"
| "viewStep c (Wheel e) = handleWheel c e"
| "viewStep c ZoomIn = zoomIn c"
| "viewStep c ZoomOut = zoomOut c"
| "viewStep c ResetView = resetView c"

definition viewRun :: "view_event list \<Rightarrow> view_component" where
  "viewRun evs = foldl viewStep initialView evs"

section \<open>NodeVisualization: expansion flags and child queries\<close>

definition toggleNodeExpansion :: "string \<Rightarrow> string set \<Rightarrow> string set" where
  "toggleNodeExpansion nodeId prev =
     (if nodeId \<in> prev then prev - {nodeId} else insert nodeId prev)"

definition toggleChildNodes :: "string \<Rightarrow> string set \<Rightarrow> string set" where
  "toggleChildNodes nodeId prev =
     (if nodeId \<in> prev then prev - {nodeId} else insert nodeId prev)"

definition getChildNodes :: "AgentNode list \<Rightarrow> string \<Rightarrow> AgentNode list" where
  "getChildNodes ns parentId = filter (\<lambda>n. parent_id n = Some parentId) ns"

definition getRootNodes :: "AgentNode list \<Rightarrow> AgentNode list" where
  "getRootNodes ns = filter (\<lambda>n. \<not> truthy_str (parent_id n)) ns"

section \<open>Home: the node store fed by the WebSocket\<close>

text \<open>
  The hooks of \<^verbatim>\<open>Home\<close>. The socket is its ready state, the timeout reference is the
  timer it holds. An update message is its \<^verbatim>\<open>type\<close> tag; a \<^verbatim>\<open>node_update\<close>
  carries its node, and a tag the handler does not test is \<open>other_update\<close>.
\<close>

record InvestigationData =
  investigation_id :: string
  inv_status :: string
  message :: string
  timestamp :: string

datatype socket = OPEN | CLOSED

datatype timer = Armed | Cleared

record home_state =
  investigationData :: "InvestigationData option"
  nodes :: "AgentNode list"
  isLoading :: bool
  currentWebSocket :: "socket option"
  timeoutRef :: "timer option"

datatype update =
    node_update AgentNode
  | investigation_complete
  | error_update
  | other_update string

definition initialHome :: home_state where
  "initialHome =
     \<lparr>investigationData = None, nodes = [], isLoading = False,
      currentWebSocket = None, timeoutRef = None\<rparr>"

definition onmessage :: "home_state \<Rightarrow> update \<Rightarrow> home_state" where
  "onmessage h u =
     (case u of
        node_update n \<Rightarrow> h\<lparr>nodes := nodes h @ [n]\<rparr>
      | investigation_complete \<Rightarrow>
          h\<lparr>isLoading := False,
            currentWebSocket := map_option (\<lambda>_. CLOSED) (currentWebSocket h),
            timeoutRef := map_option (\<lambda>_. Cleared) (timeoutRef h)\<rparr>
      | error_update \<Rightarrow>
          h\<lparr>isLoading := False,
            currentWebSocket := map_option (\<lambda>_. CLOSED) (currentWebSocket h),
            timeoutRef := map_option (\<lambda>_. Cleared) (timeoutRef h)\<rparr>
      | other_update t \<Rightarrow> h)"

definition handleReset :: "home_state \<Rightarrow> home_state" where
  "handleReset h =
     h\<lparr>currentWebSocket := None,
       timeoutRef := None,
       investigationData := None,
       nodes := [],
       isLoading := False\<rparr>"

section \<open>The page: Home with the visualisation hooks it mounts\<close>

text \<open>
  \<^verbatim>\<open>Home\<close> renders the visualisation unconditionally and passes it \<^verbatim>\<open>nodes\<close>; the
  visualisation components keep their own hooks (\<^verbatim>\<open>expandedNodes\<close>,
  \<^verbatim>\<open>showChildNodes\<close>, \<^verbatim>\<open>viewState\<close>). A handler changes only the hooks whose
  setter it calls; the hooks of a mounted component survive every re-render.
\<close>

record app_state =
  home :: home_state
  expandedNodes :: "string set"
  showChildNodes :: "string set"
  view :: view_component
  dimensions :: dimensions

datatype app_event =
    Message update
  | Reset
  | ToggleExpansion string
  | ToggleChildren string
  | View view_event
  | Resize real real

text \<open>\<^verbatim>\<open>updateDimensions\<close> from the bounding rectangle of the canvas' parent.\<close>

definition updateDimensions :: "real \<Rightarrow> real \<Rightarrow> dimensions" where
  "updateDimensions rect_width rect_height =
     \<lparr>width = max 1200 (rect_width - 32), height = max 800 (rect_height - 32)\<rparr>"

definition defaultDimensions :: dimensions where
  "defaultDimensions = \<lparr>width = 1200, height = 800\<rparr>"

definition initialApp :: app_state where
  "initialApp =
     \<lparr>home = initialHome, expandedNodes = {}, showChildNodes = {}, view = initialView,
      dimensions = defaultDimensions\<rparr>"

fun appStep :: "app_state \<Rightarrow> app_event \<Rightarrow> app_state" where
  "appStep s (Message u) = s\<lparr>home := onmessage (home s) u\<rparr>"
| "appStep s Reset = s\<lparr>home := handleReset (home s)\<rparr>"
| "appStep s (ToggleExpansion i) = s\<lparr>expandedNodes := toggleNodeExpansion i (expandedNodes s)\<rparr>"
| "appStep s (ToggleChildren i) = s\<lparr>showChildNodes := toggleChildNodes i (showChildNodes s)\<rparr>"
| "appStep s (View e) = s\<lparr>view := viewStep (view s) e\<rparr>"
| "appStep s (Resize w h) = s\<lparr>dimensions := updateDimensions w h\<rparr>"

definition appRun :: "app_event list \<Rightarrow> app_state" where
  "appRun evs = foldl appStep initialApp evs"

text \<open>What a render of the page shows: the positions and connections computed from the
  current \<^verbatim>\<open>nodes\<close>, the view state and the expansion flags.\<close>

definition nodePositionsOf :: "app_state \<Rightarrow> position list" where
  "nodePositionsOf s = calculateNodePositions (dimensions s) (nodes (home s))"

definition connectionsOf :: "app_state \<Rightarrow> connection list" where
  "connectionsOf s = getConnections (nodePositionsOf s)"

section \<open>RealTimeAgentVisualization: grid layout, edges, pan and zoom\<close>

record AgentAction =
  action_type :: string
  alabel :: string
  adescription :: string
  adata :: jvalue

record VisualNode =
  vid :: string
  vtype :: string
  vlabel :: string
  vdescription :: string
  vx :: real
  vy :: real
  vwidth :: real
  vheight :: real
  vdata :: jvalue
  vparentId :: "string option"
  isInference :: "bool option"
  isExpanded :: "bool option"

datatype edge_type = normal | cross_validation | inference_edge

text \<open>An edge without its \<^verbatim>\<open>id\<close> (the React key). The source of a cross-validation
  edge is an element of the payload's \<^verbatim>\<open>parent_nodes\<close> array, whatever JSON value
  that is.\<close>

record edge =
  source :: jvalue
  target :: string
  etype :: edge_type

text \<open>Decimal digits of an index, for the template literal \<^verbatim>\<open>action_${index}\<close>.\<close>

fun showNat :: "nat \<Rightarrow> string" where
  "showNat n =
     (if n < 10 then [''0123456789'' ! n]
      else showNat (n div 10) @ [''0123456789'' ! (n mod 10)])"

declare showNat.simps [simp del]

text \<open>JavaScript truthiness of a JSON value.\<close>

fun truthy :: "jvalue \<Rightarrow> bool" where
  "truthy JNull = False"
| "truthy (JBool b) = b"
| "truthy (JNum r) = (r \<noteq> 0)"
| "truthy (JStr s) = (s \<noteq> [])"
| "truthy (JArr xs) = True"
| "truthy (JObj kvs) = True"

definition isLargeInferenceNode :: "AgentNode \<Rightarrow> bool" where
  "isLargeInferenceNode n =
     (node_type n = inference \<and>
      (str_includes (label n) ''Master Inference'' \<or>
       str_includes (label n) ''Comprehensive'' \<or>
       (case map_of (data n) ''executive_summary'' of None \<Rightarrow> False | Some v \<Rightarrow> truthy v)))"

record rt_build =
  newVisualNodes :: "VisualNode list"
  newEdges :: "edge list"
  nodeIndex :: nat

definition addAction :: "rt_build \<Rightarrow> AgentAction \<Rightarrow> nat \<Rightarrow> rt_build" where
  "addAction acc action index =
     acc\<lparr>newVisualNodes := newVisualNodes acc @
           [\<lparr>vid = ''action_'' @ showNat index,
             vtype = action_type action,
             vlabel = alabel action,
             vdescription = adescription action,
             vx = 50 + real ((index mod 6) * 220),
             vy = 50 + real ((index div 6) * 120),
             vwidth = 200,
             vheight = 80,
             vdata = adata action,
             vparentId = None,
             isInference = None,
             isExpanded = None\<rparr>],
         nodeIndex := nodeIndex acc + 1\<rparr>"

definition addNode :: "string set \<Rightarrow> rt_build \<Rightarrow> AgentNode \<Rightarrow> nat \<Rightarrow> rt_build" where
  "addNode expanded acc n index =
     (let isLargeInference = isLargeInferenceNode n;
          visualNode =
            \<lparr>vid = node_id n,
             vtype = (if node_type n = inference then ''inference''
                      else if node_type n = analysis then ''analysis'' else ''data_fetch''),
             vlabel = label n,
             vdescription = description n,
             vx = 50 + real ((nodeIndex acc mod 5) * 260),
             vy = 200 + real ((nodeIndex acc div 5) * 150),
             vwidth = (if isLargeInference then 400 else 240),
             vheight = (if isLargeInference then 200 else 100),
             vdata = JObj (data n),
             vparentId = parent_id n,
             isInference = Some isLargeInference,
             isExpanded = Some (node_id n \<in> expanded)\<rparr>;
          acc = acc\<lparr>newVisualNodes := newVisualNodes acc @ [visualNode]\<rparr>;
          acc = (case parent_id n of
                   None \<Rightarrow> acc
                 | Some pid \<Rightarrow>
                     if pid = [] then acc
                     else acc\<lparr>newEdges := newEdges acc @
                            [\<lparr>source = JStr pid, target = node_id n, etype = normal\<rparr>]\<rparr>)
      in acc\<lparr>nodeIndex := nodeIndex acc + 1\<rparr>)"

text \<open>\<^verbatim>\<open>parentId !== node.parent_id\<close>: only a string equal to the node's own parent
  id is skipped.\<close>

definition addCrossEdge :: "AgentNode \<Rightarrow> rt_build \<Rightarrow> jvalue \<Rightarrow> rt_build" where
  "addCrossEdge n acc parentId =
     (if (case parentId of JStr pid \<Rightarrow> parent_id n \<noteq> Some pid | _ \<Rightarrow> True)
      then acc\<lparr>newEdges := newEdges acc @
             [\<lparr>source = parentId, target = node_id n, etype = cross_validation\<rparr>]\<rparr>
      else acc)"

definition addCrossEdges :: "rt_build \<Rightarrow> AgentNode \<Rightarrow> rt_build" where
  "addCrossEdges acc n =
     (case map_of (data n) ''parent_nodes'' of
        Some (JArr parent_nodes) \<Rightarrow> foldl (addCrossEdge n) acc parent_nodes
      | _ \<Rightarrow> acc)"

definition buildVisual :: "AgentNode list \<Rightarrow> AgentAction list \<Rightarrow> string set \<Rightarrow> rt_build" where
  "buildVisual ns agentActions expanded =
     (let acc = \<lparr>newVisualNodes = [], newEdges = [], nodeIndex = 0\<rparr>;
          acc = forEachIdx addAction agentActions acc;
          acc = forEachIdx (addNode expanded) ns acc;
          acc = foldl addCrossEdges acc ns
      in acc)"

text \<open>The render of one edge: \<open>None\<close> is the \<^verbatim>\<open>return null\<close> of an edge one of whose
  ends is not among the visual nodes.\<close>

record line =
  x1 :: real
  y1 :: real
  x2 :: real
  y2 :: real
  isCrossValidation :: bool

definition renderEdge :: "VisualNode list \<Rightarrow> edge \<Rightarrow> line option" where
  "renderEdge visualNodes e =
     (case find (\<lambda>n. JStr (vid n) = source e) visualNodes of
        None \<Rightarrow> None
      | Some sourceNode \<Rightarrow>
          (case find (\<lambda>n. vid n = target e) visualNodes of
             None \<Rightarrow> None
           | Some targetNode \<Rightarrow>
               Some \<lparr>x1 = vx sourceNode + vwidth sourceNode / 2,
                     y1 = vy sourceNode + vheight sourceNode,
                     x2 = vx targetNode + vwidth targetNode / 2,
                     y2 = vy targetNode,
                     isCrossValidation = (etype e = cross_validation)\<rparr>))"

definition renderEdges :: "VisualNode list \<Rightarrow> edge list \<Rightarrow> line option list" where
  "renderEdges visualNodes es = map (renderEdge visualNodes) es"

definition initialView_rt :: view_component where
  "initialView_rt =
     \<lparr>viewState = \<lparr>scale = 0.8, translateX = 100, translateY = 50\<rparr>,
      isDragging = False,
      dragStart = \<lparr>ptx = 0, pty = 0\<rparr>\<rparr>"

text \<open>The mouse-down handler returns at once when the target lies inside a node's
  content; the flag is that test on the event's target.\<close>

definition handleMouseDown_rt :: "view_component \<Rightarrow> bool \<Rightarrow> mouse_event \<Rightarrow> view_component" where
  "handleMouseDown_rt c onNodeContent e =
     (if onNodeContent then c
      else c\<lparr>isDragging := True,
             dragStart := \<lparr>ptx = clientX e - translateX (viewState c),
                           pty = clientY e - translateY (viewState c)\<rparr>\<rparr>)"

definition handleWheel_rt :: "view_component \<Rightarrow> wheel_event \<Rightarrow> view_component" where
  "handleWheel_rt c e =
     (let scaleFactor = (if deltaY e > 0 then 0.9 else 1.1)
      in c\<lparr>viewState := (viewState c)\<lparr>scale :=
             max 0.2 (min 2 (scale (viewState c) * scaleFactor))\<rparr>\<rparr>)"

definition resetView_rt :: "view_component \<Rightarrow> view_component" where
  "resetView_rt c = c\<lparr>viewState := \<lparr>scale = 0.8, translateX = 100, translateY = 50\<rparr>\<rparr>"

definition handleNodeClick :: "string \<Rightarrow> string set \<Rightarrow> string set" where
  "handleNodeClick nodeId prev =
     (if nodeId \<in> prev then prev - {nodeId} else insert nodeId prev)"

datatype view_event_rt =
    MouseDown_rt bool mouse_event
  | MouseMove_rt mouse_event
  | MouseUp_rt
  | Wheel_rt wheel_event
  | ResetView_rt

fun viewStep_rt :: "view_component \<Rightarrow> view_event_rt \<Rightarrow> view_component" where
  "viewStep_rt c (MouseDown_rt b e) = handleMouseDown_rt c b e"
| "viewStep_rt c (MouseMove_rt e) = handleMouseMove c e"
| "viewStep_rt c MouseUp_rt = handleMouseUp c"
| "viewStep_rt c (Wheel_rt e) = handleWheel_rt c e"
| "viewStep_rt c ResetView_rt = resetView_rt c"

definition viewRun_rt :: "view_event_rt list \<Rightarrow> view_component" where
  "viewRun_rt evs = foldl viewStep_rt initialView_rt evs"

section \<open>Predicates used in the statements\<close>

definition scaleBounded :: "real \<Rightarrow> real \<Rightarrow> view_component \<Rightarrow> bool" where
  "scaleBounded lo hi c = (lo \<le> scale (viewState c) \<and> scale (viewState c) \<le> hi)"

abbreviation inBounds :: "view_component \<Rightarrow> bool" where
  "inBounds \<equiv> scaleBounded (1 / 10) 3"

abbreviation inBounds_rt :: "view_component \<Rightarrow> bool" where
  "inBounds_rt \<equiv> scaleBounded (1 / 5) 2"

section \<open>Closed forms and examples used in the proofs\<close>

text \<open>What each loop pushes, as one map over the indexed lane, and the layout for a
  given \<^verbatim>\<open>currentLevel\<close> and \<^verbatim>\<open>validationLevel\<close>.\<close>

definition mainSeg :: "dimensions \<Rightarrow> AgentNode list \<Rightarrow> position list" where
  "mainSeg dims ms = map (\<lambda>ix. mainEntry dims (snd ix) (fst ix)) (enumerate 0 ms)"

definition branchSeg :: "dimensions \<Rightarrow> nat \<Rightarrow> branch_spec \<Rightarrow> nat \<Rightarrow> position list" where
  "branchSeg dims cl b bi =
     map (\<lambda>ix. branchEntry dims cl b bi (snd ix) (fst ix)) (enumerate 0 (bnodes b))"

definition validationSeg :: "dimensions \<Rightarrow> nat \<Rightarrow> AgentNode list \<Rightarrow> position list" where
  "validationSeg dims vl vs =
     map (\<lambda>ix. validationEntry dims vl (snd ix) (fst ix)) (enumerate 0 vs)"

definition finalSeg :: "dimensions \<Rightarrow> nat \<Rightarrow> AgentNode list \<Rightarrow> position list" where
  "finalSeg dims vl fs = map (\<lambda>ix. finalEntry dims vl (snd ix) (fst ix)) (enumerate 0 fs)"

definition maxLaneSize :: "AgentNode list \<Rightarrow> nat" where
  "maxLaneSize ns =
     max (length (laneNodes newsBranch ns))
       (max (length (laneNodes financialBranch ns)) (length (laneNodes marketBranch ns)))"

definition exUnmatched :: AgentNode where
  "exUnmatched =
     \<lparr>node_id = ''t1'', node_type = analysis, label = ''Technical Indicators'',
      description = ''RSI and MACD'', status = completed, data = [],
      parent_id = None, children_ids = [], created_at = ''2025-01-01T00:00:00'',
      completed_at = None\<rparr>"

definition mkNode :: "string \<Rightarrow> node_type \<Rightarrow> string \<Rightarrow> string option \<Rightarrow> AgentNode" where
  "mkNode i t l par =
     \<lparr>node_id = i, node_type = t, label = l, description = [], status = completed,
      data = [], parent_id = par, children_ids = [], created_at = ''2025-01-01T00:00:00'',
      completed_at = None\<rparr>"

text \<open>The main flow and the three thematic branches; the largest level among the
  entries of those lanes (0 when there is none).\<close>

definition isFlowLane :: "lane option \<Rightarrow> bool" where
  "isFlowLane l = (l = Some mainFlow \<or> l = Some newsBranch \<or> l = Some financialBranch
                   \<or> l = Some marketBranch)"

definition maxAssignedLevel :: "position list \<Rightarrow> nat" where
  "maxAssignedLevel ps =
     fold max (map level (filter (\<lambda>p. isFlowLane (classify (pnode p))) ps)) 0"

definition exBranchy :: "AgentNode list" where
  "exBranchy =
     [mkNode ''r'' data_fetch ''Price Data Fetch'' None,
      mkNode ''n1'' analysis ''News Sentiment'' (Some ''r''),
      mkNode ''n2'' analysis ''News Follow-up'' (Some ''n1''),
      mkNode ''v1'' validation ''Cross Check'' (Some ''n2'')]"

definition layoutAt :: "dimensions \<Rightarrow> nat \<Rightarrow> nat \<Rightarrow> AgentNode list \<Rightarrow> position list" where
  "layoutAt dims cl vl ns =
     mainSeg dims (laneNodes mainFlow ns)
     @ branchSeg dims cl (branches ns ! 0) 0
     @ branchSeg dims cl (branches ns ! 1) 1
     @ branchSeg dims cl (branches ns ! 2) 2
     @ validationSeg dims vl (laneNodes validationNodes ns)
     @ finalSeg dims vl (laneNodes finalNodes ns)"

definition hasId :: "string \<Rightarrow> position \<Rightarrow> bool" where
  "hasId i p = (node_id (pnode p) = i)"

text \<open>Whether a later node classified \<open>lo\<close> can move the nodes of lane \<open>l\<close>: a
  main-flow node raises \<^verbatim>\<open>currentLevel\<close>, on which every other lane rests; a thematic
  node can raise \<^verbatim>\<open>validationLevel\<close>, on which the validation and final lanes rest.\<close>

definition shifts :: "lane option \<Rightarrow> lane \<Rightarrow> bool" where
  "shifts lo l =
     ((lo = Some mainFlow \<and> l \<noteq> mainFlow) \<or>
      (isFlowLane lo \<and> lo \<noteq> Some mainFlow \<and> (l = validationNodes \<or> l = finalNodes)))"

definition exNews :: AgentNode where
  "exNews = mkNode ''n1'' analysis ''News Sentiment'' None"

definition exDecision :: AgentNode where
  "exDecision = mkNode ''d1'' decision ''Agent Decision'' None"

definition exSecondCheck :: AgentNode where
  "exSecondCheck = mkNode ''v2'' validation ''Second Check'' None"

text \<open>A connection is resolved when both its ends are the coordinates of entries of
  the position list, the source entry being the parent of the target's node.\<close>

definition resolved :: "position list \<Rightarrow> connection \<Rightarrow> bool" where
  "resolved ps c =
     (\<exists>p \<in> set ps. \<exists>q \<in> set ps.
        cfrom c = \<lparr>ptx = pos_x p, pty = pos_y p\<rparr> \<and>
        cto c = \<lparr>ptx = pos_x q, pty = pos_y q\<rparr> \<and>
        ((ctype c = ''parent'' \<and> parent_id (pnode q) = Some (node_id (pnode p))) \<or>
         (ctype c = ''validation'' \<and> node_id (pnode q) \<in> set (children_ids (pnode p)))))"

text \<open>Where and how large a visual node is drawn.\<close>

definition geometry :: "VisualNode \<Rightarrow> string \<times> real \<times> real \<times> real \<times> real" where
  "geometry v = (vid v, vx v, vy v, vwidth v, vheight v)"

definition sameGeometry :: "rt_build \<Rightarrow> rt_build \<Rightarrow> bool" where
  "sameGeometry acc acc' =
     (map geometry (newVisualNodes acc) = map geometry (newVisualNodes acc') \<and>
      newEdges acc = newEdges acc' \<and> nodeIndex acc = nodeIndex acc')"

definition exEdges :: "AgentNode list" where
  "exEdges =
     [(mkNode ''r'' data_fetch ''Price Data Fetch'' None)\<lparr>children_ids := [''n1'', ''gone'']\<rparr>,
      mkNode ''n1'' analysis ''News Sentiment'' (Some ''r''),
      mkNode ''o1'' analysis ''Market Context'' (Some ''zz'')]"

section \<open>Viewport: the scale clamp and the frame of zooming\<close>

lemma viewStep_bounded: "inBounds c \<Longrightarrow> inBounds (viewStep c e)"
  by (cases e)
     (auto simp: scaleBounded_def handleMouseDown_def handleMouseMove_def handleMouseUp_def
        handleWheel_def zoomIn_def zoomOut_def resetView_def Let_def)

lemma viewStep_rt_bounded: "inBounds_rt c \<Longrightarrow> inBounds_rt (viewStep_rt c e)"
  by (cases e)
     (auto simp: scaleBounded_def handleMouseDown_rt_def handleMouseMove_def handleMouseUp_def
        handleWheel_rt_def resetView_rt_def Let_def)

lemma foldl_viewStep_bounded: "inBounds c \<Longrightarrow> inBounds (foldl viewStep c evs)"
  by (induction evs arbitrary: c) (simp_all add: viewStep_bounded)

lemma foldl_viewStep_rt_bounded: "inBounds_rt c \<Longrightarrow> inBounds_rt (foldl viewStep_rt c evs)"
  by (induction evs arbitrary: c) (simp_all add: viewStep_rt_bounded)

text \<open>
  Claim C6. Whatever events the branched view has handled since it was mounted (mouse
  drags, wheel turns of any \<^verbatim>\<open>deltaY\<close>, the zoom-in, zoom-out and reset buttons, in any
  order and number), its scale lies in \<open>[0.1, 3]\<close>; and whatever events the real-time
  view has handled, its scale lies in its own bounds \<open>[0.2, 2]\<close>. The zoom factors are
  the constants of the handlers (0.9 and 1.1 for the wheel, 1.2 and 0.8 for the
  buttons); the products are taken over the reals.
\<close>

theorem scale_within_bounds:
  "0.1 \<le> scale (viewState (viewRun evs)) \<and> scale (viewState (viewRun evs)) \<le> 3 \<and>
   0.2 \<le> scale (viewState (viewRun_rt evs')) \<and> scale (viewState (viewRun_rt evs')) \<le> 2"
proof -
  have "inBounds initialView"
    by (simp add: scaleBounded_def initialView_def)
  then have a: "inBounds (viewRun evs)"
    unfolding viewRun_def by (rule foldl_viewStep_bounded)
  have "inBounds_rt initialView_rt"
    by (simp add: scaleBounded_def initialView_rt_def)
  then have b: "inBounds_rt (viewRun_rt evs')"
    unfolding viewRun_rt_def by (rule foldl_viewStep_rt_bounded)
  from a b show ?thesis by (simp add: scaleBounded_def)
qed

text \<open>
  Claim C10. The wheel handler of either view and the zoom-in and zoom-out buttons leave
  \<^verbatim>\<open>translateX\<close> and \<^verbatim>\<open>translateY\<close> as they were; the wheel handlers give the same
  result wherever the cursor is (\<^verbatim>\<open>clientX\<close>, \<^verbatim>\<open>clientY\<close> are not read); and the canvas
  origin lands on the same screen point before and after a zoom, so the zoom is about
  the canvas origin.
\<close>

theorem zoom_changes_only_scale:
  "translateX (viewState (handleWheel c e)) = translateX (viewState c) \<and>
   translateY (viewState (handleWheel c e)) = translateY (viewState c) \<and>
   translateX (viewState (zoomIn c)) = translateX (viewState c) \<and>
   translateY (viewState (zoomIn c)) = translateY (viewState c) \<and>
   translateX (viewState (zoomOut c)) = translateX (viewState c) \<and>
   translateY (viewState (zoomOut c)) = translateY (viewState c) \<and>
   translateX (viewState (handleWheel_rt c e)) = translateX (viewState c) \<and>
   translateY (viewState (handleWheel_rt c e)) = translateY (viewState c) \<and>
   handleWheel c (e\<lparr>clientX := cx, clientY := cy\<rparr>) = handleWheel c e \<and>
   handleWheel_rt c (e\<lparr>clientX := cx, clientY := cy\<rparr>) = handleWheel_rt c e \<and>
   applyTransform (viewState (handleWheel c e)) \<lparr>ptx = 0, pty = 0\<rparr>
     = applyTransform (viewState c) \<lparr>ptx = 0, pty = 0\<rparr> \<and>
   applyTransform (viewState (zoomIn c)) \<lparr>ptx = 0, pty = 0\<rparr>
     = applyTransform (viewState c) \<lparr>ptx = 0, pty = 0\<rparr> \<and>
   applyTransform (viewState (zoomOut c)) \<lparr>ptx = 0, pty = 0\<rparr>
     = applyTransform (viewState c) \<lparr>ptx = 0, pty = 0\<rparr> \<and>
   applyTransform (viewState (handleWheel_rt c e)) \<lparr>ptx = 0, pty = 0\<rparr>
     = applyTransform (viewState c) \<lparr>ptx = 0, pty = 0\<rparr>"
  by (simp add: handleWheel_def handleWheel_rt_def zoomIn_def zoomOut_def applyTransform_def
      Let_def)

section \<open>Layout: the loops in closed form\<close>

lemma foldl_push:
  assumes "\<And>acc x i. f acc x i = acc @ [g x i]"
  shows "foldl (\<lambda>acc ix. f acc (snd ix) (fst ix)) s (enumerate k xs)
         = s @ map (\<lambda>ix. g (snd ix) (fst ix)) (enumerate k xs)"
  by (induction xs arbitrary: s k) (simp_all add: assms)

lemma forEachIdx_push:
  assumes "\<And>acc x i. f acc x i = acc @ [g x i]"
  shows "forEachIdx f xs s = s @ map (\<lambda>ix. g (snd ix) (fst ix)) (enumerate 0 xs)"
  unfolding forEachIdx_def by (rule foldl_push) (rule assms)

lemma foldl_placeMain:
  "foldl (\<lambda>acc ix. placeMain dims acc (snd ix) (fst ix)) (ps, c) (enumerate k xs)
   = (ps @ map (\<lambda>ix. mainEntry dims (snd ix) (fst ix)) (enumerate k xs),
      if xs = [] then c else max c (k + length xs))"
  by (induction xs arbitrary: ps c k) (auto simp: placeMain_def)

lemma forEachIdx_placeMain:
  "forEachIdx (placeMain dims) ms ([], 0) = (mainSeg dims ms, length ms)"
  unfolding forEachIdx_def mainSeg_def by (simp add: foldl_placeMain)

lemma currentLevelOf_eq: "currentLevelOf dims ns = length (laneNodes mainFlow ns)"
  by (simp add: currentLevelOf_def forEachIdx_placeMain)

lemma placeBranch_eq: "placeBranch dims cl ps b bi = ps @ branchSeg dims cl b bi"
  unfolding placeBranch_def branchSeg_def
  by (rule forEachIdx_push) (simp add: placeBranchNode_def)

lemma forEachIdx_placeBranch:
  "forEachIdx (placeBranch dims cl) [b0, b1, b2] ps
   = ps @ branchSeg dims cl b0 0 @ branchSeg dims cl b1 1 @ branchSeg dims cl b2 2"
  by (simp add: forEachIdx_def placeBranch_eq enumerate_simps eval_nat_numeral)

lemma fold_max_branches: "fold max (map (\<lambda>b. length (bnodes b)) (branches ns)) 2 = max 2 (maxLaneSize ns)"
  by (simp add: branches_def maxLaneSize_def max.commute max.left_commute)

lemma validationLevelOf_eq:
  "validationLevelOf dims ns = length (laneNodes mainFlow ns) + max 2 (maxLaneSize ns)"
  by (simp add: validationLevelOf_def currentLevelOf_eq fold_max_branches)

lemma forEachIdx_placeValidation:
  "forEachIdx (placeValidation dims vl) vs ps = ps @ validationSeg dims vl vs"
  unfolding validationSeg_def by (rule forEachIdx_push) (simp add: placeValidation_def)

lemma forEachIdx_placeFinal:
  "forEachIdx (placeFinal dims vl) fs ps = ps @ finalSeg dims vl fs"
  unfolding finalSeg_def by (rule forEachIdx_push) (simp add: placeFinal_def)

lemma calculateNodePositions_eq:
  "calculateNodePositions dims ns =
     mainSeg dims (laneNodes mainFlow ns)
     @ branchSeg dims (currentLevelOf dims ns) (branches ns ! 0) 0
     @ branchSeg dims (currentLevelOf dims ns) (branches ns ! 1) 1
     @ branchSeg dims (currentLevelOf dims ns) (branches ns ! 2) 2
     @ validationSeg dims (validationLevelOf dims ns) (laneNodes validationNodes ns)
     @ finalSeg dims (validationLevelOf dims ns) (laneNodes finalNodes ns)"
proof (cases "ns = []")
  case True
  then show ?thesis
    by (simp add: calculateNodePositions_def mainSeg_def branchSeg_def validationSeg_def
        finalSeg_def laneNodes_def branches_def)
next
  case False
  have br: "forEachIdx (placeBranch dims cl) (branches ns) ps
      = ps @ branchSeg dims cl (branches ns ! 0) 0 @ branchSeg dims cl (branches ns ! 1) 1
           @ branchSeg dims cl (branches ns ! 2) 2" for cl ps
    unfolding branches_def by (simp add: forEachIdx_placeBranch)
  from False show ?thesis
    by (simp add: calculateNodePositions_def forEachIdx_placeMain br
        forEachIdx_placeValidation forEachIdx_placeFinal validationLevelOf_def currentLevelOf_eq
        Let_def)
qed


section \<open>Which nodes are positioned\<close>

lemma map_pnode_mainSeg: "map pnode (mainSeg dims ms) = ms"
  by (simp add: mainSeg_def mainEntry_def comp_def)

lemma map_pnode_branchSeg: "map pnode (branchSeg dims cl b bi) = bnodes b"
  by (simp add: branchSeg_def branchEntry_def comp_def)

lemma map_pnode_validationSeg: "map pnode (validationSeg dims vl vs) = vs"
  by (simp add: validationSeg_def validationEntry_def comp_def)

lemma map_pnode_finalSeg: "map pnode (finalSeg dims vl fs) = fs"
  by (simp add: finalSeg_def finalEntry_def comp_def)

lemma map_pnode_calculateNodePositions:
  "map pnode (calculateNodePositions dims ns) =
     laneNodes mainFlow ns @ laneNodes newsBranch ns @ laneNodes financialBranch ns
     @ laneNodes marketBranch ns @ laneNodes validationNodes ns @ laneNodes finalNodes ns"
  by (simp add: calculateNodePositions_eq map_pnode_mainSeg map_pnode_branchSeg
      map_pnode_validationSeg map_pnode_finalSeg branches_def)

lemma mset_lanes:
  "mset (laneNodes mainFlow ns) + mset (laneNodes newsBranch ns)
   + mset (laneNodes financialBranch ns) + mset (laneNodes marketBranch ns)
   + mset (laneNodes validationNodes ns) + mset (laneNodes finalNodes ns)
   = filter_mset (\<lambda>n. classify n \<noteq> None) (mset ns)"
proof (induction ns)
  case Nil
  show ?case by (simp add: laneNodes_def)
next
  case (Cons a ns)
  show ?case
  proof (cases "classify a")
    case None
    with Cons show ?thesis by (simp add: laneNodes_def)
  next
    case (Some l)
    with Cons show ?thesis by (cases l) (simp_all add: laneNodes_def)
  qed
qed

lemma classify_data: "classify (n\<lparr>data := d\<rparr>) = classify n"
  by (simp add: classify_def)

text \<open>
  Claim C4, as the code has it. The nodes that appear in the computed positions are
  exactly (with multiplicity) the ingested nodes that the \<^verbatim>\<open>if / else if\<close> chain
  puts into a lane; a node that matches no rule is in no lane and has no position.
  The payload is never read by the chain: changing \<^verbatim>\<open>data\<close> changes no lane.
\<close>

theorem positioned_iff_classified:
  "mset (map pnode (calculateNodePositions dims ns))
     = filter_mset (\<lambda>n. classify n \<noteq> None) (mset ns) \<and>
   classify (n\<lparr>data := d\<rparr>) = classify n"
proof -
  have "mset (map pnode (calculateNodePositions dims ns))
      = mset (laneNodes mainFlow ns) + mset (laneNodes newsBranch ns)
        + mset (laneNodes financialBranch ns) + mset (laneNodes marketBranch ns)
        + mset (laneNodes validationNodes ns) + mset (laneNodes finalNodes ns)"
    unfolding mset_map [symmetric] map_pnode_calculateNodePositions
    by (simp only: mset_append add.assoc)
  then show ?thesis
    by (simp only: mset_lanes classify_data simp_thms)
qed

text \<open>
  Claim C4 as stated fails: an analysis node labelled ``Technical Indicators'' matches
  no rule, gets no lane and is absent from the positions.
\<close>

theorem unmatched_node_counterexample:
  "classify exUnmatched = None \<and>
   calculateNodePositions defaultDimensions [exUnmatched] = []"
  by (simp add: exUnmatched_def classify_def calculateNodePositions_def forEachIdx_def
      laneNodes_def branches_def placeBranch_def)

section \<open>Levels of the lanes\<close>

lemma in_set_indexed:
  "p \<in> set (map (\<lambda>ix. g (snd ix) (fst ix)) (enumerate 0 xs))
     \<longleftrightarrow> (\<exists>i < length xs. p = g (xs ! i) i)"
  by (auto simp: in_set_enumerate_eq image_iff intro!: bexI [where x = "(i, xs ! i)" for i])

lemma laneNodes_classify: "n \<in> set (laneNodes l ns) \<Longrightarrow> classify n = Some l"
  by (simp add: laneNodes_def)

lemma mainSeg_entry:
  "p \<in> set (mainSeg dims ms) \<Longrightarrow> level p < length ms \<and> pnode p \<in> set ms"
  unfolding mainSeg_def in_set_indexed by (auto simp: mainEntry_def)

lemma branchSeg_entry:
  "p \<in> set (branchSeg dims cl b bi)
   \<Longrightarrow> cl \<le> level p \<and> level p < cl + length (bnodes b) \<and> pnode p \<in> set (bnodes b)"
  unfolding branchSeg_def in_set_indexed by (auto simp: branchEntry_def)

lemma validationSeg_entry:
  "p \<in> set (validationSeg dims vl vs) \<Longrightarrow> level p = vl \<and> pnode p \<in> set vs"
  unfolding validationSeg_def in_set_indexed by (auto simp: validationEntry_def)

lemma finalSeg_entry:
  "p \<in> set (finalSeg dims vl fs) \<Longrightarrow> level p = vl + 1 \<and> pnode p \<in> set fs"
  unfolding finalSeg_def in_set_indexed by (auto simp: finalEntry_def)

text \<open>Every entry of the layout sits in the level range of the lane of its node.\<close>

lemma entry_level:
  assumes "p \<in> set (calculateNodePositions dims ns)"
  shows "(classify (pnode p) = Some mainFlow \<and> level p < length (laneNodes mainFlow ns))
       \<or> (isFlowLane (classify (pnode p))
            \<and> length (laneNodes mainFlow ns) \<le> level p
            \<and> level p < length (laneNodes mainFlow ns) + maxLaneSize ns)
       \<or> (classify (pnode p) = Some validationNodes \<and> level p = validationLevelOf dims ns)
       \<or> (classify (pnode p) = Some finalNodes \<and> level p = validationLevelOf dims ns + 1)"
proof -
  let ?cl = "currentLevelOf dims ns" and ?vl = "validationLevelOf dims ns"
  from assms consider
      "p \<in> set (mainSeg dims (laneNodes mainFlow ns))"
    | "p \<in> set (branchSeg dims ?cl (branches ns ! 0) 0)"
    | "p \<in> set (branchSeg dims ?cl (branches ns ! 1) 1)"
    | "p \<in> set (branchSeg dims ?cl (branches ns ! 2) 2)"
    | "p \<in> set (validationSeg dims ?vl (laneNodes validationNodes ns))"
    | "p \<in> set (finalSeg dims ?vl (laneNodes finalNodes ns))"
    unfolding calculateNodePositions_eq by auto
  then show ?thesis
  proof cases
    case 1
    from mainSeg_entry [OF 1] show ?thesis
      by (auto dest: laneNodes_classify)
  next
    case 2
    from branchSeg_entry [OF 2] show ?thesis
      by (auto simp: branches_def currentLevelOf_eq maxLaneSize_def isFlowLane_def
          dest: laneNodes_classify)
  next
    case 3
    from branchSeg_entry [OF 3] show ?thesis
      by (auto simp: branches_def currentLevelOf_eq maxLaneSize_def isFlowLane_def
          dest: laneNodes_classify)
  next
    case 4
    from branchSeg_entry [OF 4] show ?thesis
      by (auto simp: branches_def currentLevelOf_eq maxLaneSize_def isFlowLane_def
          dest: laneNodes_classify)
  next
    case 5
    from validationSeg_entry [OF 5] show ?thesis
      by (auto dest: laneNodes_classify)
  next
    case 6
    from finalSeg_entry [OF 6] show ?thesis
      by (auto dest: laneNodes_classify)
  qed
qed

text \<open>
  Claim C1, as the code has it. Every positioned node of the validation lane is at
  \<^verbatim>\<open>validationLevel = currentLevel + max(2, size of the largest thematic lane)\<close>,
  where \<^verbatim>\<open>currentLevel\<close> is the number of main-flow nodes; that level is strictly
  above the level of every main-flow and thematic-lane entry.
\<close>

theorem validation_level:
  assumes "p \<in> set (calculateNodePositions dims ns)"
    and "classify (pnode p) = Some validationNodes"
  shows "level p = validationLevelOf dims ns \<and>
         validationLevelOf dims ns = currentLevelOf dims ns + max 2 (maxLaneSize ns) \<and>
         currentLevelOf dims ns = length (laneNodes mainFlow ns) \<and>
         (\<forall>q \<in> set (calculateNodePositions dims ns).
            isFlowLane (classify (pnode q)) \<longrightarrow> level q < level p)"
proof -
  from entry_level [OF assms(1)] assms(2)
  have lp: "level p = validationLevelOf dims ns"
    by (auto simp: isFlowLane_def)
  have below: "level q < validationLevelOf dims ns"
    if "q \<in> set (calculateNodePositions dims ns)" "isFlowLane (classify (pnode q))" for q
    using entry_level [OF that(1)] that(2)
    by (auto simp: isFlowLane_def validationLevelOf_eq)
  show ?thesis
    using lp below by (simp add: validationLevelOf_eq currentLevelOf_eq)
qed

lemma exBranchy_lanes:
  "laneNodes mainFlow exBranchy = [exBranchy ! 0] \<and>
   laneNodes newsBranch exBranchy = [exBranchy ! 1, exBranchy ! 2] \<and>
   laneNodes financialBranch exBranchy = [] \<and>
   laneNodes marketBranch exBranchy = [] \<and>
   laneNodes validationNodes exBranchy = [exBranchy ! 3] \<and>
   laneNodes finalNodes exBranchy = []"
  by (simp add: exBranchy_def mkNode_def classify_def laneNodes_def)

lemma exBranchy_positions:
  "calculateNodePositions dims exBranchy =
     [mainEntry dims (exBranchy ! 0) 0,
      branchEntry dims 1 (branches exBranchy ! 0) 0 (exBranchy ! 1) 0,
      branchEntry dims 1 (branches exBranchy ! 0) 0 (exBranchy ! 2) 1,
      validationEntry dims 3 (exBranchy ! 3) 0]"
  by (simp add: calculateNodePositions_eq validationLevelOf_eq currentLevelOf_eq maxLaneSize_def
      exBranchy_lanes mainSeg_def branchSeg_def validationSeg_def finalSeg_def branches_def
      enumerate_simps eval_nat_numeral)

lemma exBranchy_classes:
  "classify (exBranchy ! 0) = Some mainFlow \<and> classify (exBranchy ! 1) = Some newsBranch \<and>
   classify (exBranchy ! 2) = Some newsBranch \<and> classify (exBranchy ! 3) = Some validationNodes"
  by (simp add: exBranchy_def mkNode_def classify_def)

text \<open>
  Claim C1 as stated fails. With one main-flow node, two news nodes and a validation
  node, the thematic levels are 1 and 2 and the validation node is at level 3, which is
  neither the largest assigned level plus \<open>max 2 2\<close> (that is 4) nor at least that far
  past the last thematic level.
\<close>

theorem validation_level_counterexample:
  "map (\<lambda>p. (node_id (pnode p), level p)) (calculateNodePositions defaultDimensions exBranchy)
     = [(''r'', 0), (''n1'', 1), (''n2'', 2), (''v1'', 3)] \<and>
   classify (pnode (calculateNodePositions defaultDimensions exBranchy ! 3))
     = Some validationNodes \<and>
   maxAssignedLevel (calculateNodePositions defaultDimensions exBranchy) = 2 \<and>
   maxLaneSize exBranchy = 2 \<and>
   level (calculateNodePositions defaultDimensions exBranchy ! 3)
     \<noteq> maxAssignedLevel (calculateNodePositions defaultDimensions exBranchy)
         + max 2 (maxLaneSize exBranchy) \<and>
   level (calculateNodePositions defaultDimensions exBranchy ! 3)
     < maxAssignedLevel (calculateNodePositions defaultDimensions exBranchy)
         + max 2 (maxLaneSize exBranchy)"
proof -
  have m: "maxLaneSize exBranchy = 2"
    by (simp add: maxLaneSize_def exBranchy_lanes)
  have a: "maxAssignedLevel (calculateNodePositions defaultDimensions exBranchy) = 2"
    by (simp add: maxAssignedLevel_def exBranchy_positions mainEntry_def branchEntry_def
        validationEntry_def exBranchy_classes isFlowLane_def)
  have l: "map (\<lambda>p. (pnode p, level p)) (calculateNodePositions defaultDimensions exBranchy)
     = [(exBranchy ! 0, 0), (exBranchy ! 1, 1), (exBranchy ! 2, 2), (exBranchy ! 3, 3)]"
    by (simp add: exBranchy_positions mainEntry_def branchEntry_def validationEntry_def)
  have l1: "map (\<lambda>p. (node_id (pnode p), level p))
              (calculateNodePositions defaultDimensions exBranchy)
            = map (\<lambda>q. (node_id (fst q), snd q))
                (map (\<lambda>p. (pnode p, level p)) (calculateNodePositions defaultDimensions exBranchy))"
    by (simp add: comp_def)
  have l2: "map (\<lambda>p. (node_id (pnode p), level p))
              (calculateNodePositions defaultDimensions exBranchy)
            = [(''r'', 0), (''n1'', 1), (''n2'', 2), (''v1'', 3)]"
    unfolding l1 l by (simp add: exBranchy_def mkNode_def)
  have v: "pnode (calculateNodePositions defaultDimensions exBranchy ! 3) = exBranchy ! 3"
          "level (calculateNodePositions defaultDimensions exBranchy ! 3) = 3"
    by (simp_all add: exBranchy_positions validationEntry_def)
  show ?thesis
    unfolding l2 v a m by (simp add: exBranchy_classes)
qed

theorem validation_level_witness:
  "calculateNodePositions defaultDimensions exBranchy ! 3
     \<in> set (calculateNodePositions defaultDimensions exBranchy) \<and>
   classify (pnode (calculateNodePositions defaultDimensions exBranchy ! 3))
     = Some validationNodes \<and>
   level (calculateNodePositions defaultDimensions exBranchy ! 3) = 3 \<and>
   validationLevelOf defaultDimensions exBranchy = 3 \<and>
   currentLevelOf defaultDimensions exBranchy = 1 \<and>
   maxLaneSize exBranchy = 2 \<and>
   level (calculateNodePositions defaultDimensions exBranchy ! 2) = 2 \<and>
   level (calculateNodePositions defaultDimensions exBranchy ! 2)
     < level (calculateNodePositions defaultDimensions exBranchy ! 3)"
proof -
  let ?ps = "calculateNodePositions defaultDimensions exBranchy"
  have mem: "?ps ! 3 \<in> set ?ps"
    by (simp add: exBranchy_positions)
  have cls: "classify (pnode (?ps ! 3)) = Some validationNodes"
    by (simp add: exBranchy_positions validationEntry_def exBranchy_classes)
  have m: "maxLaneSize exBranchy = 2"
    by (simp add: maxLaneSize_def exBranchy_lanes)
  have c: "length (laneNodes mainFlow exBranchy) = 1"
    by (simp add: exBranchy_lanes)
  have l2: "level (?ps ! 2) = 2"
    by (simp add: exBranchy_positions branchEntry_def)
  have mem2: "?ps ! 2 \<in> set ?ps"
    by (simp add: exBranchy_positions)
  have flow2: "isFlowLane (classify (pnode (?ps ! 2)))"
    by (simp add: exBranchy_positions branchEntry_def exBranchy_classes isFlowLane_def)
  from validation_level [OF mem cls] mem2 flow2
  have below: "level (?ps ! 2) < level (?ps ! 3)"
    by blast
  from validation_level [OF mem cls] mem cls m c l2 below show ?thesis
    by simp
qed

section \<open>Stability of the layout under later arrivals\<close>

lemma calculateNodePositions_layoutAt:
  "calculateNodePositions dims ns
     = layoutAt dims (currentLevelOf dims ns) (validationLevelOf dims ns) ns"
  by (simp add: calculateNodePositions_eq layoutAt_def)

lemma findPosition_filter:
  "findPosition i ps = (case filter (hasId i) ps of [] \<Rightarrow> None | p # _ \<Rightarrow> Some p)"
  unfolding findPosition_def hasId_def by (induction ps) simp_all

lemma laneNodes_append: "laneNodes l (ns @ later) = laneNodes l ns @ laneNodes l later"
  by (simp add: laneNodes_def)

lemma laneNodes_subset: "set (laneNodes l ns) \<subseteq> set ns"
  by (auto simp: laneNodes_def)

lemma filter_indexed_append:
  assumes "\<And>y k. y \<in> set ys \<Longrightarrow> \<not> P (g y k)"
  shows "filter P (map (\<lambda>ix. g (snd ix) (fst ix)) (enumerate 0 (xs @ ys)))
         = filter P (map (\<lambda>ix. g (snd ix) (fst ix)) (enumerate 0 xs))"
proof -
  have "filter P (map (\<lambda>ix. g (snd ix) (fst ix)) (enumerate k ys)) = []" for k
    using assms by (auto simp: filter_empty_conv in_set_enumerate_eq)
  then show ?thesis
    by (simp add: enumerate_append_eq)
qed

lemma filter_layoutAt_append:
  assumes "\<forall>m \<in> set later. node_id m \<noteq> i"
  shows "filter (hasId i) (layoutAt dims cl vl (ns @ later))
         = filter (hasId i) (layoutAt dims cl vl ns)"
proof -
  have fresh: "node_id y \<noteq> i" if "y \<in> set (laneNodes l later)" for y l
    using assms that laneNodes_subset by blast
  have m: "filter (hasId i) (mainSeg dims (laneNodes mainFlow (ns @ later)))
         = filter (hasId i) (mainSeg dims (laneNodes mainFlow ns))"
    unfolding mainSeg_def laneNodes_append
    by (rule filter_indexed_append) (simp add: hasId_def mainEntry_def fresh)
  have b: "filter (hasId i) (branchSeg dims cl (branches (ns @ later) ! k) k)
         = filter (hasId i) (branchSeg dims cl (branches ns ! k) k)" if "k < 3" for k
  proof -
    from that consider "k = 0" | "k = 1" | "k = 2" by linarith
    then show ?thesis
    proof cases
      case 1
      have "filter (hasId i)
              (map (\<lambda>ix. branchEntry dims cl (branches ns ! 0) 0 (snd ix) (fst ix))
                (enumerate 0 (laneNodes newsBranch ns @ laneNodes newsBranch later)))
          = filter (hasId i)
              (map (\<lambda>ix. branchEntry dims cl (branches ns ! 0) 0 (snd ix) (fst ix))
                (enumerate 0 (laneNodes newsBranch ns)))"
        by (rule filter_indexed_append) (simp add: hasId_def branchEntry_def fresh)
      with 1 show ?thesis
        by (simp add: branchSeg_def branches_def laneNodes_append branchEntry_def)
    next
      case 2
      have "filter (hasId i)
              (map (\<lambda>ix. branchEntry dims cl (branches ns ! 1) 1 (snd ix) (fst ix))
                (enumerate 0 (laneNodes financialBranch ns @ laneNodes financialBranch later)))
          = filter (hasId i)
              (map (\<lambda>ix. branchEntry dims cl (branches ns ! 1) 1 (snd ix) (fst ix))
                (enumerate 0 (laneNodes financialBranch ns)))"
        by (rule filter_indexed_append) (simp add: hasId_def branchEntry_def fresh)
      with 2 show ?thesis
        by (simp add: branchSeg_def branches_def laneNodes_append branchEntry_def)
    next
      case 3
      have "filter (hasId i)
              (map (\<lambda>ix. branchEntry dims cl (branches ns ! 2) 2 (snd ix) (fst ix))
                (enumerate 0 (laneNodes marketBranch ns @ laneNodes marketBranch later)))
          = filter (hasId i)
              (map (\<lambda>ix. branchEntry dims cl (branches ns ! 2) 2 (snd ix) (fst ix))
                (enumerate 0 (laneNodes marketBranch ns)))"
        by (rule filter_indexed_append) (simp add: hasId_def branchEntry_def fresh)
      with 3 show ?thesis
        by (simp add: branchSeg_def branches_def laneNodes_append branchEntry_def)
    qed
  qed
  have v: "filter (hasId i) (validationSeg dims vl (laneNodes validationNodes (ns @ later)))
         = filter (hasId i) (validationSeg dims vl (laneNodes validationNodes ns))"
    unfolding validationSeg_def laneNodes_append
    by (rule filter_indexed_append) (simp add: hasId_def validationEntry_def fresh)
  have f: "filter (hasId i) (finalSeg dims vl (laneNodes finalNodes (ns @ later)))
         = filter (hasId i) (finalSeg dims vl (laneNodes finalNodes ns))"
    unfolding finalSeg_def laneNodes_append
    by (rule filter_indexed_append) (simp add: hasId_def finalEntry_def fresh)
  show ?thesis
    unfolding layoutAt_def filter_append m v f
    by (simp add: b)
qed

lemma T_lane:
  assumes "q \<in> set (branchSeg dims cl (branches ns ! 0) 0 @ branchSeg dims cl (branches ns ! 1) 1
              @ branchSeg dims cl (branches ns ! 2) 2)"
  shows "isFlowLane (classify (pnode q)) \<and> classify (pnode q) \<noteq> Some mainFlow"
proof -
  from assms obtain k where k: "k < 3" "q \<in> set (branchSeg dims cl (branches ns ! k) k)"
    by (auto intro: that [of 0] that [of 1] that [of 2])
  from branchSeg_entry [OF k(2)] have "pnode q \<in> set (bnodes (branches ns ! k))"
    by simp
  with k(1) have "classify (pnode q) = Some newsBranch \<or> classify (pnode q) = Some financialBranch
      \<or> classify (pnode q) = Some marketBranch"
    by (auto simp: branches_def less_Suc_eq numeral_3_eq_3 laneNodes_def)
  then show ?thesis
    by (auto simp: isFlowLane_def)
qed

lemma V_lane:
  assumes "q \<in> set (validationSeg dims vl (laneNodes validationNodes ns)
              @ finalSeg dims vl (laneNodes finalNodes ns))"
  shows "classify (pnode q) = Some validationNodes \<or> classify (pnode q) = Some finalNodes"
proof -
  from assms consider "q \<in> set (validationSeg dims vl (laneNodes validationNodes ns))"
    | "q \<in> set (finalSeg dims vl (laneNodes finalNodes ns))"
    by auto
  then show ?thesis
  proof cases
    case 1
    from validationSeg_entry [OF 1] show ?thesis
      by (simp add: laneNodes_def)
  next
    case 2
    from finalSeg_entry [OF 2] show ?thesis
      by (simp add: laneNodes_def)
  qed
qed

lemma find_append_eq:
  "find P (xs @ ys) = (case find P xs of None \<Rightarrow> find P ys | Some x \<Rightarrow> Some x)"
  by (induction xs) simp_all

lemma find_in_set: "find P xs = Some x \<Longrightarrow> x \<in> set xs"
  by (induction xs) (auto split: if_splits)

lemma find_head_stable:
  assumes "find P (A @ B) = Some p" and "p \<notin> set B"
  shows "find P (A @ B') = Some p"
proof (cases "find P A")
  case None
  with assms(1) have "find P B = Some p" by (simp add: find_append_eq)
  with assms(2) show ?thesis by (auto dest: find_in_set)
next
  case (Some x)
  with assms(1) show ?thesis by (simp add: find_append_eq)
qed

lemma findPosition_cong:
  "filter (hasId i) ps = filter (hasId i) qs \<Longrightarrow> findPosition i ps = findPosition i qs"
  by (simp add: findPosition_filter)

lemma findPosition_append_layoutAt:
  assumes "\<forall>m \<in> set later. node_id m \<noteq> i"
  shows "findPosition i (calculateNodePositions dims (ns @ later))
         = findPosition i (layoutAt dims (currentLevelOf dims (ns @ later))
                             (validationLevelOf dims (ns @ later)) ns)"
  unfolding calculateNodePositions_layoutAt
  by (rule findPosition_cong) (rule filter_layoutAt_append [OF assms])

text \<open>The node and the branch number of an entry do not depend on the two levels.\<close>

lemma lane_of_layoutAt:
  "map (\<lambda>p. (pnode p, branch p)) (layoutAt dims cl vl ns)
   = map (\<lambda>p. (pnode p, branch p)) (layoutAt dims cl' vl' ns)"
  by (simp add: layoutAt_def mainSeg_def branchSeg_def validationSeg_def finalSeg_def
      mainEntry_def branchEntry_def validationEntry_def finalEntry_def comp_def)

lemma map_findPosition:
  "map_option (\<lambda>p. (pnode p, branch p)) (findPosition i ps)
   = find (\<lambda>q. node_id (fst q) = i) (map (\<lambda>p. (pnode p, branch p)) ps)"
  unfolding findPosition_def by (induction ps) simp_all

lemma lane_stable:
  assumes "\<forall>m \<in> set later. node_id m \<noteq> i"
  shows "map_option (\<lambda>p. (pnode p, branch p))
           (findPosition i (calculateNodePositions dims (ns @ later)))
       = map_option (\<lambda>p. (pnode p, branch p))
           (findPosition i (calculateNodePositions dims ns))"
proof -
  let ?g = "\<lambda>p. (pnode p, branch p)"
  let ?cl' = "currentLevelOf dims (ns @ later)" and ?vl' = "validationLevelOf dims (ns @ later)"
  let ?cl = "currentLevelOf dims ns" and ?vl = "validationLevelOf dims ns"
  have "map_option ?g (findPosition i (calculateNodePositions dims (ns @ later)))
      = find (\<lambda>q. node_id (fst q) = i) (map ?g (layoutAt dims ?cl' ?vl' ns))"
    by (simp only: findPosition_append_layoutAt [OF assms] map_findPosition)
  also have "map ?g (layoutAt dims ?cl' ?vl' ns) = map ?g (layoutAt dims ?cl ?vl ns)"
    by (rule lane_of_layoutAt)
  also have "find (\<lambda>q. node_id (fst q) = i) (map ?g (layoutAt dims ?cl ?vl ns))
      = map_option ?g (findPosition i (calculateNodePositions dims ns))"
    by (simp only: map_findPosition calculateNodePositions_layoutAt)
  finally show ?thesis .
qed


lemma laneNodes_none: "\<forall>m \<in> set later. classify m \<noteq> Some l \<Longrightarrow> laneNodes l later = []"
  by (simp add: laneNodes_def filter_empty_conv)

lemma currentLevelOf_append:
  "\<forall>m \<in> set later. classify m \<noteq> Some mainFlow
   \<Longrightarrow> currentLevelOf dims (ns @ later) = currentLevelOf dims ns"
  by (simp add: currentLevelOf_eq laneNodes_append laneNodes_none)

lemma validationLevelOf_append:
  "\<forall>m \<in> set later. \<not> isFlowLane (classify m)
   \<Longrightarrow> validationLevelOf dims (ns @ later) = validationLevelOf dims ns"
  by (simp add: validationLevelOf_eq maxLaneSize_def laneNodes_append laneNodes_none
      isFlowLane_def)

lemma entry_stable:
  assumes fresh: "\<forall>m \<in> set later. node_id m \<noteq> i"
    and found: "findPosition i (calculateNodePositions dims ns) = Some p"
    and lane: "classify (pnode p) = Some l"
    and noshift: "\<forall>m \<in> set later. \<not> shifts (classify m) l"
  shows "findPosition i (calculateNodePositions dims (ns @ later)) = Some p"
proof -
  let ?cl' = "currentLevelOf dims (ns @ later)" and ?vl' = "validationLevelOf dims (ns @ later)"
  let ?cl = "currentLevelOf dims ns" and ?vl = "validationLevelOf dims ns"
  let ?M = "mainSeg dims (laneNodes mainFlow ns)"
  let ?T = "\<lambda>cl. branchSeg dims cl (branches ns ! 0) 0 @ branchSeg dims cl (branches ns ! 1) 1
              @ branchSeg dims cl (branches ns ! 2) 2"
  let ?V = "\<lambda>vl. validationSeg dims vl (laneNodes validationNodes ns)
              @ finalSeg dims vl (laneNodes finalNodes ns)"
  have split: "layoutAt dims cl vl ns = ?M @ ?T cl @ ?V vl" for cl vl
    by (simp add: layoutAt_def)
  have new: "findPosition i (calculateNodePositions dims (ns @ later))
      = find (\<lambda>p. node_id (pnode p) = i) (?M @ ?T ?cl' @ ?V ?vl')"
    unfolding findPosition_append_layoutAt [OF fresh] split
    by (simp add: findPosition_def)
  have old: "find (\<lambda>p. node_id (pnode p) = i) (?M @ ?T ?cl @ ?V ?vl) = Some p"
    using found unfolding calculateNodePositions_layoutAt split
    by (simp add: findPosition_def)
  show ?thesis
  proof (cases "l = mainFlow")
    case True
    have "p \<notin> set (?T ?cl @ ?V ?vl)"
      using lane True T_lane [of p dims ?cl ns] V_lane [of p dims ?vl ns] by auto
    from find_head_stable [OF old this] show ?thesis
      unfolding new .
  next
    case notMain: False
    then have "\<forall>m \<in> set later. classify m \<noteq> Some mainFlow"
      using noshift by (auto simp: shifts_def)
    then have cl: "?cl' = ?cl"
      by (rule currentLevelOf_append)
    show ?thesis
    proof (cases "l = validationNodes \<or> l = finalNodes")
      case True
      then have "\<forall>m \<in> set later. \<not> isFlowLane (classify m)"
        using noshift by (auto simp: shifts_def isFlowLane_def)
      then have "?vl' = ?vl"
        by (rule validationLevelOf_append)
      with cl old show ?thesis
        unfolding new by (simp only:)
    next
      case False
      have "p \<notin> set (?V ?vl)"
        using lane False notMain V_lane [of p dims ?vl ns] by auto
      from old have "find (\<lambda>p. node_id (pnode p) = i) ((?M @ ?T ?cl) @ ?V ?vl) = Some p"
        by (simp only: append_assoc)
      from find_head_stable [OF this \<open>p \<notin> set (?V ?vl)\<close>]
      have "find (\<lambda>p. node_id (pnode p) = i) ((?M @ ?T ?cl) @ ?V ?vl') = Some p" .
      then show ?thesis
        unfolding new cl by (simp only: append_assoc)
    qed
  qed
qed

text \<open>
  Claim C2, as the code has it. The layout is recomputed from the whole list on every
  render. Let further nodes with other ids be appended. The entry found for a node id
  keeps its node and its branch number (its lane). It is the very same entry (same
  level and coordinates) whenever no later node can shift its lane: always for a
  main-flow node; for a thematic node when no later node enters the main flow; for
  a validation or final node when no later node enters the main flow or a thematic lane.
\<close>

theorem layout_stability:
  assumes "\<forall>m \<in> set later. node_id m \<noteq> i"
  shows "map_option (\<lambda>p. (pnode p, branch p))
           (findPosition i (calculateNodePositions dims (ns @ later)))
         = map_option (\<lambda>p. (pnode p, branch p))
             (findPosition i (calculateNodePositions dims ns)) \<and>
         (\<forall>p l. findPosition i (calculateNodePositions dims ns) = Some p
                \<and> classify (pnode p) = Some l
                \<and> (\<forall>m \<in> set later. \<not> shifts (classify m) l)
            \<longrightarrow> findPosition i (calculateNodePositions dims (ns @ later)) = Some p)"
  using lane_stable [OF assms] entry_stable [OF assms] by blast

text \<open>
  Claim C2 as stated fails: a news node alone is at level 0; after an unrelated
  ``Agent Decision'' node (no parent, no children, another lane) arrives, the same
  news node is at level 1.
\<close>

theorem layout_stability_counterexample:
  "classify exNews = Some newsBranch \<and> classify exDecision = Some mainFlow \<and>
   node_id exNews = ''n1'' \<and> node_id exDecision = ''d1'' \<and>
   parent_id exNews = None \<and> parent_id exDecision = None \<and>
   children_ids exNews = [] \<and> children_ids exDecision = [] \<and>
   map_option level (findPosition ''n1'' (calculateNodePositions defaultDimensions [exNews]))
     = Some 0 \<and>
   map_option level
     (findPosition ''n1'' (calculateNodePositions defaultDimensions ([exNews] @ [exDecision])))
     = Some 1"
proof -
  have c: "classify exNews = Some newsBranch" "classify exDecision = Some mainFlow"
    by (simp_all add: exNews_def exDecision_def mkNode_def classify_def)
  have i: "node_id exNews = ''n1''" "node_id exDecision = ''d1''"
    "parent_id exNews = None" "parent_id exDecision = None"
    "children_ids exNews = []" "children_ids exDecision = []"
    by (simp_all add: exNews_def exDecision_def mkNode_def)
  have before: "calculateNodePositions defaultDimensions [exNews]
      = [branchEntry defaultDimensions 0 (branches [exNews] ! 0) 0 exNews 0]"
    by (simp add: calculateNodePositions_eq currentLevelOf_eq laneNodes_def c mainSeg_def
        branchSeg_def validationSeg_def finalSeg_def branches_def)
  have after: "calculateNodePositions defaultDimensions ([exNews] @ [exDecision])
      = [mainEntry defaultDimensions exDecision 0,
         branchEntry defaultDimensions 1 (branches [exNews, exDecision] ! 0) 0 exNews 0]"
    by (simp add: calculateNodePositions_eq currentLevelOf_eq laneNodes_def c mainSeg_def
        branchSeg_def validationSeg_def finalSeg_def branches_def)
  show ?thesis
    unfolding before after
    by (simp add: c i findPosition_def mainEntry_def branchEntry_def)
qed

theorem layout_stability_witness:
  "findPosition ''n2'' (calculateNodePositions defaultDimensions (exBranchy @ [exSecondCheck]))
     = findPosition ''n2'' (calculateNodePositions defaultDimensions exBranchy) \<and>
   map_option level
     (findPosition ''n2'' (calculateNodePositions defaultDimensions (exBranchy @ [exSecondCheck])))
     = Some 2 \<and>
   map_option branch
     (findPosition ''n2'' (calculateNodePositions defaultDimensions (exBranchy @ [exSecondCheck])))
     = Some 1"
proof -
  let ?p = "branchEntry defaultDimensions 1 (branches exBranchy ! 0) 0 (exBranchy ! 2) 1"
  have fresh: "\<forall>m \<in> set [exSecondCheck]. node_id m \<noteq> ''n2''"
    by (simp add: exSecondCheck_def mkNode_def)
  have nth: "node_id (exBranchy ! 0) = ''r''" "node_id (exBranchy ! Suc 0) = ''n1''"
    "node_id (exBranchy ! 2) = ''n2''"
    by (simp_all add: exBranchy_def mkNode_def)
  have found: "findPosition ''n2'' (calculateNodePositions defaultDimensions exBranchy) = Some ?p"
    by (simp add: exBranchy_positions findPosition_def mainEntry_def branchEntry_def nth)
  have lane: "classify (pnode ?p) = Some newsBranch"
    by (simp add: branchEntry_def exBranchy_classes)
  have noshift: "\<forall>m \<in> set [exSecondCheck]. \<not> shifts (classify m) newsBranch"
    by (simp add: shifts_def exSecondCheck_def mkNode_def classify_def isFlowLane_def)
  from layout_stability [OF fresh, of defaultDimensions exBranchy] found lane noshift
  have "findPosition ''n2'' (calculateNodePositions defaultDimensions (exBranchy @ [exSecondCheck]))
      = Some ?p"
    by blast
  with found show ?thesis
    by (simp add: branchEntry_def)
qed

section \<open>The node store: ingestion and the children query\<close>

lemma length_calculateNodePositions:
  "length (calculateNodePositions dims ns) = length (filter (\<lambda>n. classify n \<noteq> None) ns)"
proof -
  have "mset (map pnode (calculateNodePositions dims ns))
      = mset (laneNodes mainFlow ns) + mset (laneNodes newsBranch ns)
        + mset (laneNodes financialBranch ns) + mset (laneNodes marketBranch ns)
        + mset (laneNodes validationNodes ns) + mset (laneNodes finalNodes ns)"
    unfolding map_pnode_calculateNodePositions by (simp only: mset_append add.assoc)
  then have "size (mset (map pnode (calculateNodePositions dims ns)))
      = size (filter_mset (\<lambda>n. classify n \<noteq> None) (mset ns))"
    by (simp only: mset_lanes)
  then show ?thesis
    by (simp only: mset_filter [symmetric] size_mset length_map)
qed

text \<open>
  Claim C3, as the code has it. The handler appends the node of every
  \<^verbatim>\<open>node_update\<close> message; there is no merge by id. Processing the same message a
  second time leaves the store of the first processing with one more copy of the node
  at its end, and the layout with one more entry when the node has a lane. The other
  messages are idempotent.
\<close>

theorem ingest_appends:
  "nodes (onmessage (onmessage h (node_update n)) (node_update n))
     = nodes (onmessage h (node_update n)) @ [n] \<and>
   nodes (onmessage h (node_update n)) = nodes h @ [n] \<and>
   length (calculateNodePositions dims (nodes (onmessage (onmessage h (node_update n)) (node_update n))))
     = length (calculateNodePositions dims (nodes (onmessage h (node_update n))))
       + (if classify n = None then 0 else 1) \<and>
   onmessage (onmessage h investigation_complete) investigation_complete
     = onmessage h investigation_complete \<and>
   onmessage (onmessage h error_update) error_update = onmessage h error_update \<and>
   onmessage (onmessage h (other_update t)) (other_update t) = onmessage h (other_update t)"
  by (simp add: onmessage_def length_calculateNodePositions option.map_comp comp_def)

text \<open>
  Claim C3 as stated fails: after one news node message the store holds one node, at
  level 0; after the same message again it holds two, at levels 0 and 1.
\<close>

theorem ingest_twice_counterexample:
  "nodes (onmessage initialHome (node_update exNews)) = [exNews] \<and>
   nodes (onmessage (onmessage initialHome (node_update exNews)) (node_update exNews))
     = [exNews, exNews] \<and>
   map level (calculateNodePositions defaultDimensions
     (nodes (onmessage initialHome (node_update exNews)))) = [0] \<and>
   map level (calculateNodePositions defaultDimensions
     (nodes (onmessage (onmessage initialHome (node_update exNews)) (node_update exNews))))
     = [0, 1]"
proof -
  have c: "classify exNews = Some newsBranch"
    by (simp add: exNews_def mkNode_def classify_def)
  have once: "nodes (onmessage initialHome (node_update exNews)) = [exNews]"
    by (simp add: onmessage_def initialHome_def)
  have twice: "nodes (onmessage (onmessage initialHome (node_update exNews)) (node_update exNews))
     = [exNews, exNews]"
    by (simp add: onmessage_def initialHome_def)
  show ?thesis
    unfolding once twice
    by (simp add: calculateNodePositions_eq currentLevelOf_eq laneNodes_def c mainSeg_def
        branchSeg_def validationSeg_def finalSeg_def branches_def branchEntry_def
        enumerate_simps)
qed

text \<open>
  Claim C9. Let \<open>c\<close> name \<open>p\<close> as its parent, let \<open>p\<close> not be its own parent,
  and let the store hold no child of \<open>p\<close> yet. After the two node messages, in either
  order, the children query for \<open>p\<close> returns exactly \<open>[c]\<close>.
\<close>

theorem children_order_independent:
  assumes "parent_id c = Some (node_id p)"
    and "parent_id p \<noteq> Some (node_id p)"
    and "getChildNodes (nodes h) (node_id p) = []"
  shows "getChildNodes (nodes (onmessage (onmessage h (node_update p)) (node_update c)))
           (node_id p) = [c] \<and>
         getChildNodes (nodes (onmessage (onmessage h (node_update c)) (node_update p)))
           (node_id p) = [c]"
  using assms by (simp add: onmessage_def getChildNodes_def)

theorem children_order_independent_witness:
  "getChildNodes
     (nodes (onmessage (onmessage initialHome (node_update (exBranchy ! 0)))
        (node_update (exBranchy ! 1)))) ''r'' = [exBranchy ! 1] \<and>
   getChildNodes
     (nodes (onmessage (onmessage initialHome (node_update (exBranchy ! 1)))
        (node_update (exBranchy ! 0)))) ''r'' = [exBranchy ! 1]"
proof -
  have a: "parent_id (exBranchy ! 1) = Some (node_id (exBranchy ! 0))"
    by (simp add: exBranchy_def mkNode_def)
  have b: "parent_id (exBranchy ! 0) \<noteq> Some (node_id (exBranchy ! 0))"
    by (simp add: exBranchy_def mkNode_def)
  have c: "getChildNodes (nodes initialHome) (node_id (exBranchy ! 0)) = []"
    by (simp add: initialHome_def getChildNodes_def)
  have i: "node_id (exBranchy ! 0) = ''r''"
    by (simp add: exBranchy_def mkNode_def)
  from children_order_independent [OF a b c] show ?thesis
    unfolding i .
qed

section \<open>Reset\<close>

lemma getConnections_Nil: "getConnections [] = []"
  by (simp add: getConnections_def)

lemma calculateNodePositions_Nil: "calculateNodePositions dims [] = []"
  by (simp add: calculateNodePositions_def)

lemma appRun_snoc: "appRun (evs @ [e]) = appStep (appRun evs) e"
  by (simp add: appRun_def)

text \<open>
  Claim C5, as the code has it. After any events, \<^verbatim>\<open>handleReset\<close> empties the node
  list, so the positions and the connections are empty; it calls no setter of the
  visualisation, whose expansion flags, shown-children flags and view state stay as
  they were before the reset.
\<close>

theorem reset_clears_nodes_only:
  "nodes (home (appRun (evs @ [Reset]))) = [] \<and>
   nodePositionsOf (appRun (evs @ [Reset])) = [] \<and>
   connectionsOf (appRun (evs @ [Reset])) = [] \<and>
   expandedNodes (appRun (evs @ [Reset])) = expandedNodes (appRun evs) \<and>
   showChildNodes (appRun (evs @ [Reset])) = showChildNodes (appRun evs) \<and>
   view (appRun (evs @ [Reset])) = view (appRun evs)"
  by (simp add: appRun_snoc handleReset_def nodePositionsOf_def connectionsOf_def
      calculateNodePositions_Nil getConnections_Nil)

text \<open>
  Claim C5 as stated fails: after a node message, an expansion toggle of that node and
  a zoom-in, the reset leaves the node's expansion flag set and the scale at 1.2, not
  at the default 1.
\<close>

theorem reset_counterexample:
  "expandedNodes
     (appRun [Message (node_update exNews), ToggleExpansion ''n1'', View ZoomIn, Reset])
     = {''n1''} \<and>
   viewState (view
     (appRun [Message (node_update exNews), ToggleExpansion ''n1'', View ZoomIn, Reset]))
     = \<lparr>scale = 6 / 5, translateX = 0, translateY = 0\<rparr> \<and>
   viewState initialView = \<lparr>scale = 1, translateX = 0, translateY = 0\<rparr> \<and>
   nodePositionsOf
     (appRun [Message (node_update exNews), ToggleExpansion ''n1'', View ZoomIn, Reset]) = []"
  by (simp add: appRun_def initialApp_def initialHome_def initialView_def onmessage_def
      handleReset_def toggleNodeExpansion_def zoomIn_def nodePositionsOf_def
      calculateNodePositions_Nil)

section \<open>Edge resolution\<close>

lemma findPosition_Some:
  "findPosition i ps = Some p \<Longrightarrow> p \<in> set ps \<and> node_id (pnode p) = i"
  unfolding findPosition_def by (induction ps) (auto split: if_splits)

lemma connectChild_resolved:
  assumes "\<forall>c \<in> set conns. resolved ps c" and "np \<in> set ps"
    and "childId \<in> set (children_ids (pnode np))"
  shows "\<forall>c \<in> set (connectChild ps np conns childId). resolved ps c"
proof (cases "findPosition childId ps")
  case None
  with assms(1) show ?thesis by (simp add: connectChild_def)
next
  case (Some childPos)
  from findPosition_Some [OF Some] assms(2,3)
  have "resolved ps \<lparr>cfrom = \<lparr>ptx = pos_x np, pty = pos_y np\<rparr>,
                      cto = \<lparr>ptx = pos_x childPos, pty = pos_y childPos\<rparr>,
                      ctype = ''validation''\<rparr>"
    unfolding resolved_def by (intro bexI [of _ np] bexI [of _ childPos]) simp_all
  with assms(1) Some show ?thesis by (simp add: connectChild_def)
qed

lemma foldl_connectChild_resolved:
  assumes "np \<in> set ps" and "set cs \<subseteq> set (children_ids (pnode np))"
    and "\<forall>c \<in> set conns. resolved ps c"
  shows "\<forall>c \<in> set (foldl (connectChild ps np) conns cs). resolved ps c"
  using assms(2,3)
proof (induction cs arbitrary: conns)
  case Nil
  then show ?case by simp
next
  case (Cons a cs)
  from Cons.prems have "\<forall>c \<in> set (connectChild ps np conns a). resolved ps c"
    by (intro connectChild_resolved assms(1)) simp_all
  with Cons.prems(1) show ?case
    by (simp add: Cons.IH)
qed

lemma connectParent_resolved:
  assumes "\<forall>c \<in> set conns. resolved ps c" and "np \<in> set ps"
  shows "\<forall>c \<in> set (connectParent ps np conns). resolved ps c"
proof (cases "parent_id (pnode np)")
  case None
  with assms(1) show ?thesis by (simp add: connectParent_def)
next
  case (Some pid)
  show ?thesis
  proof (cases "findPosition pid ps")
    case None
    with Some assms(1) show ?thesis by (simp add: connectParent_def)
  next
    case found: (Some parentPos)
    from findPosition_Some [OF found] assms(2) Some
    have "resolved ps \<lparr>cfrom = \<lparr>ptx = pos_x parentPos, pty = pos_y parentPos\<rparr>,
                        cto = \<lparr>ptx = pos_x np, pty = pos_y np\<rparr>,
                        ctype = ''parent''\<rparr>"
      unfolding resolved_def by (intro bexI [of _ parentPos] bexI [of _ np]) simp_all
    with assms(1) Some found show ?thesis by (simp add: connectParent_def)
  qed
qed

lemma connectNode_resolved:
  assumes "\<forall>c \<in> set conns. resolved ps c" and "np \<in> set ps"
  shows "\<forall>c \<in> set (connectNode ps conns np). resolved ps c"
  using connectParent_resolved [OF assms]
    foldl_connectChild_resolved [OF assms(2) subset_refl connectParent_resolved [OF assms]]
  by (simp add: connectNode_def Let_def)

lemma foldl_connectNode_resolved:
  assumes "set qs \<subseteq> set ps" and "\<forall>c \<in> set conns. resolved ps c"
  shows "\<forall>c \<in> set (foldl (connectNode ps) conns qs). resolved ps c"
  using assms
proof (induction qs arbitrary: conns)
  case Nil
  then show ?case by simp
next
  case (Cons a qs)
  from Cons.prems have "\<forall>c \<in> set (connectNode ps conns a). resolved ps c"
    by (intro connectNode_resolved) simp_all
  with Cons.prems(1) show ?case
    by (simp add: Cons.IH)
qed

lemma find_Some_mem: "find P xs = Some x \<Longrightarrow> x \<in> set xs \<and> P x"
  by (induction xs) (auto split: if_splits)

lemma find_None_all: "find P xs = None \<longleftrightarrow> (\<forall>x \<in> set xs. \<not> P x)"
  by (induction xs) auto

text \<open>
  Claim C7. Every connection that \<^verbatim>\<open>getConnections\<close> emits runs between the
  coordinates of two entries of the position list it is given (the parent's entry and
  the child's entry). In the real-time view an edge is drawn only with both its ends
  among the visual nodes, from the source's bottom centre to the target's top centre;
  an edge with a missing end renders as nothing.
\<close>

theorem connections_resolved:
  "(\<forall>c \<in> set (getConnections ps). resolved ps c) \<and>
   (\<forall>l. renderEdge vns e = Some l \<longrightarrow>
      (\<exists>s \<in> set vns. \<exists>t \<in> set vns.
         JStr (vid s) = source e \<and> vid t = target e \<and>
         x1 l = vx s + vwidth s / 2 \<and> y1 l = vy s + vheight s \<and>
         x2 l = vx t + vwidth t / 2 \<and> y2 l = vy t)) \<and>
   ((\<forall>s \<in> set vns. JStr (vid s) \<noteq> source e) \<or> (\<forall>t \<in> set vns. vid t \<noteq> target e)
      \<longrightarrow> renderEdge vns e = None)"
proof (intro conjI allI impI)
  show "\<forall>c \<in> set (getConnections ps). resolved ps c"
    unfolding getConnections_def by (rule foldl_connectNode_resolved) simp_all
next
  fix l
  assume r: "renderEdge vns e = Some l"
  then obtain s t where s: "find (\<lambda>n. JStr (vid n) = source e) vns = Some s"
    and t: "find (\<lambda>n. vid n = target e) vns = Some t"
    and l: "l = \<lparr>x1 = vx s + vwidth s / 2, y1 = vy s + vheight s,
                 x2 = vx t + vwidth t / 2, y2 = vy t,
                 isCrossValidation = (etype e = cross_validation)\<rparr>"
    by (auto simp: renderEdge_def split: option.splits)
  from find_Some_mem [OF s] find_Some_mem [OF t] l
  show "\<exists>s \<in> set vns. \<exists>t \<in> set vns.
         JStr (vid s) = source e \<and> vid t = target e \<and>
         x1 l = vx s + vwidth s / 2 \<and> y1 l = vy s + vheight s \<and>
         x2 l = vx t + vwidth t / 2 \<and> y2 l = vy t"
    by (intro bexI [of _ s] bexI [of _ t]) simp_all
next
  assume "(\<forall>s \<in> set vns. JStr (vid s) \<noteq> source e) \<or> (\<forall>t \<in> set vns. vid t \<noteq> target e)"
  then have "find (\<lambda>n. JStr (vid n) = source e) vns = None
      \<or> find (\<lambda>n. vid n = target e) vns = None"
    by (simp add: find_None_all)
  then show "renderEdge vns e = None"
    by (auto simp: renderEdge_def split: option.splits)
qed

lemma exEdges_positions:
  "calculateNodePositions defaultDimensions exEdges =
     [mainEntry defaultDimensions (exEdges ! 0) 0,
      branchEntry defaultDimensions 1 (branches exEdges ! 0) 0 (exEdges ! 1) 0,
      branchEntry defaultDimensions 1 (branches exEdges ! 2) 2 (exEdges ! 2) 0]"
proof -
  have lanes: "laneNodes mainFlow exEdges = [exEdges ! 0]"
    "laneNodes newsBranch exEdges = [exEdges ! 1]"
    "laneNodes financialBranch exEdges = []"
    "laneNodes marketBranch exEdges = [exEdges ! 2]"
    "laneNodes validationNodes exEdges = []"
    "laneNodes finalNodes exEdges = []"
    by (simp_all add: exEdges_def mkNode_def classify_def laneNodes_def)
  show ?thesis
    by (simp add: calculateNodePositions_eq currentLevelOf_eq lanes mainSeg_def branchSeg_def
        validationSeg_def finalSeg_def branches_def enumerate_simps)
qed

lemma exEdges_connections:
  "getConnections (calculateNodePositions defaultDimensions exEdges) =
     [\<lparr>cfrom = \<lparr>ptx = 100, pty = 400\<rparr>, cto = \<lparr>ptx = 420, pty = 200\<rparr>, ctype = ''validation''\<rparr>,
      \<lparr>cfrom = \<lparr>ptx = 100, pty = 400\<rparr>, cto = \<lparr>ptx = 420, pty = 200\<rparr>, ctype = ''parent''\<rparr>]"
  unfolding exEdges_positions
  by (simp add: getConnections_def connectNode_def connectParent_def connectChild_def
      findPosition_def mainEntry_def branchEntry_def exEdges_def mkNode_def branches_def
      defaultDimensions_def levelSpacing_def Let_def)

theorem connections_resolved_witness:
  "getConnections (calculateNodePositions defaultDimensions exEdges) =
     [\<lparr>cfrom = \<lparr>ptx = 100, pty = 400\<rparr>, cto = \<lparr>ptx = 420, pty = 200\<rparr>, ctype = ''validation''\<rparr>,
      \<lparr>cfrom = \<lparr>ptx = 100, pty = 400\<rparr>, cto = \<lparr>ptx = 420, pty = 200\<rparr>, ctype = ''parent''\<rparr>] \<and>
   resolved (calculateNodePositions defaultDimensions exEdges)
     \<lparr>cfrom = \<lparr>ptx = 100, pty = 400\<rparr>, cto = \<lparr>ptx = 420, pty = 200\<rparr>, ctype = ''parent''\<rparr> \<and>
   newEdges (buildVisual [exEdges ! 1] [] {})
     = [\<lparr>source = JStr ''r'', target = ''n1'', etype = normal\<rparr>] \<and>
   renderEdge (newVisualNodes (buildVisual [exEdges ! 1] [] {}))
     \<lparr>source = JStr ''r'', target = ''n1'', etype = normal\<rparr> = None \<and>
   renderEdge (newVisualNodes (buildVisual [exEdges ! 0, exEdges ! 1] [] {}))
     \<lparr>source = JStr ''r'', target = ''n1'', etype = normal\<rparr>
     = Some \<lparr>x1 = 170, y1 = 300, x2 = 430, y2 = 200, isCrossValidation = False\<rparr> \<and>
   (\<exists>s \<in> set (newVisualNodes (buildVisual [exEdges ! 0, exEdges ! 1] [] {})).
    \<exists>t \<in> set (newVisualNodes (buildVisual [exEdges ! 0, exEdges ! 1] [] {})).
      vid s = ''r'' \<and> vid t = ''n1'' \<and> vx s + vwidth s / 2 = 170 \<and> vy t = 200)"
proof -
  let ?ps = "calculateNodePositions defaultDimensions exEdges"
  let ?vns = "newVisualNodes (buildVisual [exEdges ! 1] [] {})"
  let ?vns2 = "newVisualNodes (buildVisual [exEdges ! 0, exEdges ! 1] [] {})"
  let ?e = "\<lparr>source = JStr ''r'', target = ''n1'', etype = normal\<rparr>"
  let ?l = "\<lparr>x1 = 170, y1 = 300, x2 = 430, y2 = 200, isCrossValidation = False\<rparr>"
  have e: "newEdges (buildVisual [exEdges ! 1] [] {}) = [?e]"
    by (simp add: buildVisual_def forEachIdx_def addNode_def addCrossEdges_def exEdges_def
        mkNode_def Let_def)
  have nosrc: "\<forall>s \<in> set ?vns. JStr (vid s) \<noteq> source ?e"
    by (simp add: buildVisual_def forEachIdx_def addNode_def addCrossEdges_def exEdges_def
        mkNode_def Let_def)
  have drawn: "renderEdge ?vns2 ?e = Some ?l"
    by (simp add: renderEdge_def buildVisual_def forEachIdx_def addNode_def addCrossEdges_def
        exEdges_def mkNode_def isLargeInferenceNode_def Let_def)
  from connections_resolved [of ?ps ?vns ?e] nosrc
  have a: "\<forall>c \<in> set (getConnections ?ps). resolved ?ps c" and b: "renderEdge ?vns ?e = None"
    by blast+
  from connections_resolved [of ?ps ?vns2 ?e] drawn
  have "\<exists>s \<in> set ?vns2. \<exists>t \<in> set ?vns2.
         JStr (vid s) = source ?e \<and> vid t = target ?e \<and>
         x1 ?l = vx s + vwidth s / 2 \<and> y1 ?l = vy s + vheight s \<and>
         x2 ?l = vx t + vwidth t / 2 \<and> y2 ?l = vy t"
    by blast
  then have c: "\<exists>s \<in> set ?vns2. \<exists>t \<in> set ?vns2.
      vid s = ''r'' \<and> vid t = ''n1'' \<and> vx s + vwidth s / 2 = 170 \<and> vy t = 200"
    by auto
  from a b c e drawn show ?thesis
    by (simp add: exEdges_connections)
qed

section \<open>Expansion flags and positions\<close>

lemma addNode_sameGeometry:
  "sameGeometry acc acc' \<Longrightarrow> sameGeometry (addNode E acc n i) (addNode E' acc' n i)"
  by (auto simp: sameGeometry_def addNode_def Let_def geometry_def split: option.splits)

lemma foldl_addNode_sameGeometry:
  "sameGeometry acc acc'
   \<Longrightarrow> sameGeometry (foldl (\<lambda>a ix. addNode E a (snd ix) (fst ix)) acc xs)
         (foldl (\<lambda>a ix. addNode E' a (snd ix) (fst ix)) acc' xs)"
  by (induction xs arbitrary: acc acc') (simp_all add: addNode_sameGeometry)

lemma addCrossEdge_sameGeometry:
  "sameGeometry acc acc' \<Longrightarrow> sameGeometry (addCrossEdge n acc v) (addCrossEdge n acc' v)"
  by (simp add: sameGeometry_def addCrossEdge_def)

lemma foldl_addCrossEdge_sameGeometry:
  "sameGeometry acc acc'
   \<Longrightarrow> sameGeometry (foldl (addCrossEdge n) acc vs) (foldl (addCrossEdge n) acc' vs)"
  by (induction vs arbitrary: acc acc') (simp_all add: addCrossEdge_sameGeometry)

lemma addCrossEdges_sameGeometry:
  "sameGeometry acc acc' \<Longrightarrow> sameGeometry (addCrossEdges acc n) (addCrossEdges acc' n)"
  by (simp add: addCrossEdges_def foldl_addCrossEdge_sameGeometry
      split: option.splits jvalue.splits)

lemma foldl_addCrossEdges_sameGeometry:
  "sameGeometry acc acc'
   \<Longrightarrow> sameGeometry (foldl addCrossEdges acc ns) (foldl addCrossEdges acc' ns)"
  by (induction ns arbitrary: acc acc') (simp_all add: addCrossEdges_sameGeometry)

lemma buildVisual_sameGeometry:
  "sameGeometry (buildVisual ns acts E) (buildVisual ns acts E')"
  unfolding buildVisual_def Let_def forEachIdx_def
  by (intro foldl_addCrossEdges_sameGeometry foldl_addNode_sameGeometry)
     (simp add: sameGeometry_def)

text \<open>
  Claim C8. Toggling the expansion flag of a node leaves the computed positions and
  connections of the page as they are; in the real-time view, whose layout effect
  reads the flags, the id, coordinates and size of every visual node and all edges are
  the same before and after the toggle.
\<close>

theorem expansion_leaves_positions:
  "nodePositionsOf (appStep s (ToggleExpansion a)) = nodePositionsOf s \<and>
   connectionsOf (appStep s (ToggleExpansion a)) = connectionsOf s \<and>
   map geometry (newVisualNodes (buildVisual ns acts (handleNodeClick a E)))
     = map geometry (newVisualNodes (buildVisual ns acts E)) \<and>
   newEdges (buildVisual ns acts (handleNodeClick a E)) = newEdges (buildVisual ns acts E)"
  using buildVisual_sameGeometry [of ns acts "handleNodeClick a E" E]
  by (simp add: nodePositionsOf_def connectionsOf_def sameGeometry_def)

end
